theory Spec2Isabelle
  imports Main "HOL-Library.Sublist"
begin

section \<open>JavaScript strings\<close>

text \<open>
  A JavaScript string is a sequence of UTF-16 code units. The headings the parser looks
  for are mostly outside ASCII, so a string is modelled as the list of its code units
  (natural numbers below 65536), and \<open>length\<close> is the \<open>.length\<close> of the source.
\<close>

type_synonym jsstring = "nat list"

definition ascii :: "string \<Rightarrow> jsstring" where
  "ascii cs = map of_char cs"

text \<open>
  \<open>isLineTerminator\<close>: LF, CR, LS, PS.  \<open>isWhiteSpace\<close>: what \<open>\s\<close> matches and
  what \<open>String.prototype.trim\<close> removes (WhiteSpace and LineTerminator of ECMAScript).
\<close>

definition isLineTerminator :: "nat \<Rightarrow> bool" where
  "isLineTerminator c = (c = 10 \<or> c = 13 \<or> c = 8232 \<or> c = 8233)"

definition isWhiteSpace :: "nat \<Rightarrow> bool" where
  "isWhiteSpace c =
     (c = 9 \<or> c = 10 \<or> c = 11 \<or> c = 12 \<or> c = 13 \<or> c = 32 \<or> c = 160 \<or> c = 5760
      \<or> (8192 \<le> c \<and> c \<le> 8202) \<or> c = 8232 \<or> c = 8233 \<or> c = 8239 \<or> c = 8287
      \<or> c = 12288 \<or> c = 65279)"

definition trim :: "jsstring \<Rightarrow> jsstring" where
  "trim s = rev (dropWhile isWhiteSpace (rev (dropWhile isWhiteSpace s)))"

text \<open>\<open>s.substring(a, b)\<close>: both arguments are clamped to \<open>[0, length]\<close> and swapped
  when the first is the larger.\<close>

definition substring :: "jsstring \<Rightarrow> int \<Rightarrow> int \<Rightarrow> jsstring" where
  "substring s a b =
     (let n = int (length s);
          a' = min (max a 0) n;
          b' = min (max b 0) n;
          lo = min a' b';
          hi = max a' b'
      in take (nat (hi - lo)) (drop (nat lo) s))"

text \<open>The part of \<open>s\<close> between two positions of a regular-expression match.\<close>

definition slice :: "jsstring \<Rightarrow> nat \<Rightarrow> nat \<Rightarrow> jsstring" where
  "slice s i j = take (j - i) (drop i s)"

text \<open>\<open>s.indexOf(t)\<close>: the first position where \<open>t\<close> occurs in \<open>s\<close>, or \<open>-1\<close>.\<close>

fun indexOfFrom :: "jsstring \<Rightarrow> jsstring \<Rightarrow> nat \<Rightarrow> int" where
  "indexOfFrom [] t k = (if t = [] then int k else -1)"
| "indexOfFrom (x # xs) t k =
     (if prefix t (x # xs) then int k else indexOfFrom xs t (Suc k))"

definition indexOf :: "jsstring \<Rightarrow> jsstring \<Rightarrow> int" where
  "indexOf s t = indexOfFrom s t 0"

definition includesStr :: "jsstring \<Rightarrow> jsstring \<Rightarrow> bool" where
  "includesStr s t = (indexOf s t \<noteq> -1)"

text \<open>Decimal rendering of a number in a template literal (the counters are never
  negative).\<close>

fun digits :: "nat \<Rightarrow> jsstring" where
  "digits n = (if n < 10 then [48 + n] else digits (n div 10) @ [48 + n mod 10])"

declare digits.simps [simp del]

section \<open>The heading pattern\<close>

text \<open>
  \<open>chapterRegex\<close> is matched by backtracking. A pattern is modelled as the function that
  gives, for a text and a start position, the list of positions where a match of the
  pattern can end, in the order in which backtracking tries them; the first element is
  the match the engine reports. Flags \<open>g i m\<close>: \<open>^\<close> and \<open>$\<close> match at line
  terminators, ASCII letters match in both cases.
\<close>

type_synonym matcher = "jsstring \<Rightarrow> nat \<Rightarrow> nat list"

definition rxChar :: "(nat \<Rightarrow> bool) \<Rightarrow> matcher" where
  "rxChar P s i = (if i < length s \<and> P (s ! i) then [Suc i] else [])"

definition rxBol :: matcher where
  "rxBol s i = (if i = 0 \<or> (i \<le> length s \<and> isLineTerminator (s ! (i - 1))) then [i] else [])"

definition rxEol :: matcher where
  "rxEol s i = (if i = length s \<or> (i < length s \<and> isLineTerminator (s ! i)) then [i] else [])"

definition rxSeq :: "matcher \<Rightarrow> matcher \<Rightarrow> matcher" where
  "rxSeq a b s i = concat (map (b s) (a s i))"

definition rxAlt :: "matcher \<Rightarrow> matcher \<Rightarrow> matcher" where
  "rxAlt a b s i = a s i @ b s i"

text \<open>Greedy \<open>*\<close> on a character class: the longest run first, then shorter ones.\<close>

function rxStar :: "(nat \<Rightarrow> bool) \<Rightarrow> matcher" where
  "rxStar P s i = (if i < length s \<and> P (s ! i) then rxStar P s (Suc i) @ [i] else [i])"
  by pat_completeness auto
termination
  by (relation "measure (\<lambda>(P, s, i). length s - i)") auto

declare rxStar.simps [simp del]

definition rxPlus :: "(nat \<Rightarrow> bool) \<Rightarrow> matcher" where
  "rxPlus P = rxSeq (rxChar P) (rxStar P)"

text \<open>Greedy \<open>{0,n}\<close> on a character class.\<close>

fun rxUpto :: "nat \<Rightarrow> (nat \<Rightarrow> bool) \<Rightarrow> matcher" where
  "rxUpto 0 P s i = [i]"
| "rxUpto (Suc n) P s i = (if i < length s \<and> P (s ! i) then rxUpto n P s (Suc i) @ [i] else [i])"

text \<open>A literal character; with the \<open>i\<close> flag an ASCII letter matches in both cases
  (no code unit outside ASCII canonicalizes to an ASCII letter).\<close>

definition rxLit :: "nat \<Rightarrow> matcher" where
  "rxLit c = rxChar (\<lambda>x. x = c)"

definition ci :: "nat \<Rightarrow> nat \<Rightarrow> bool" where
  "ci c x = (x = c \<or> (65 \<le> c \<and> c \<le> 90 \<and> x = c + 32) \<or> (97 \<le> c \<and> c \<le> 122 \<and> x + 32 = c))"

fun rxWord :: "jsstring \<Rightarrow> matcher" where
  "rxWord [] = (\<lambda>s i. [i])"
| "rxWord (c # cs) = rxSeq (rxChar (ci c)) (rxWord cs)"

definition isDigit :: "nat \<Rightarrow> bool" where
  "isDigit c = (48 \<le> c \<and> c \<le> 57)"

text \<open>The class of numerals: \<open>0-9\<close> and the fourteen Chinese numeral characters
  (U+96F6 zero, U+4E00 one, ..., U+5341 ten, U+767E hundred, U+5343 thousand, U+4E24 two).\<close>

definition isNumeral :: "nat \<Rightarrow> bool" where
  "isNumeral c = (isDigit c \<or> c \<in> set [38646, 19968, 20108, 19977, 22235, 20116, 20845,
     19971, 20843, 20061, 21313, 30334, 21315, 20004])"

text \<open>The class of unit words: U+7AE0, U+56DE, U+8282, U+5377, U+96C6, U+90E8, U+7BC7.\<close>

definition isUnit :: "nat \<Rightarrow> bool" where
  "isUnit c = (c \<in> set [31456, 22238, 33410, 21367, 38598, 37096, 31687])"

text \<open>\<open>[\dIVX]\<close> under the \<open>i\<close> flag.\<close>

definition isRoman :: "nat \<Rightarrow> bool" where
  "isRoman c = (isDigit c \<or> ci 73 c \<or> ci 86 c \<or> ci 88 c)"

definition notNewline :: "nat \<Rightarrow> bool" where
  "notNewline c = (c \<noteq> 10)"

text \<open>The twelve alternatives of the marker, in the order of the source.\<close>

definition marker :: matcher where
  "marker =
     rxAlt (rxSeq (rxLit 31532) (rxSeq (rxStar isWhiteSpace) (rxSeq (rxPlus isNumeral)
            (rxSeq (rxStar isWhiteSpace) (rxChar isUnit)))))
    (rxAlt (rxSeq (rxWord (ascii ''Chapter'')) (rxSeq (rxStar isWhiteSpace) (rxPlus isRoman)))
    (rxAlt (rxSeq (rxWord (ascii ''Section'')) (rxSeq (rxStar isWhiteSpace) (rxPlus isDigit)))
    (rxAlt (rxSeq (rxWord (ascii ''Part'')) (rxSeq (rxStar isWhiteSpace) (rxPlus isDigit)))
    (rxAlt (rxWord [24207, 31456])
    (rxAlt (rxWord [21069, 35328])
    (rxAlt (rxWord [24341, 23376])
    (rxAlt (rxWord [23614, 22768])
    (rxAlt (rxWord [21518, 35760])
    (rxAlt (rxWord [27491, 25991])
    (rxAlt (rxWord [26964, 23376])
         (rxSeq (rxPlus isDigit) (rxSeq (rxStar isWhiteSpace) (rxSeq (rxLit 46) (rxStar isWhiteSpace))))
    ))))))))))"

text \<open>\<open>(?:^|\n)\s*\<close>, the capture group \<open>(marker [^\n]{0,50})\<close>, and \<open>(?:\n|$)\<close>.\<close>

definition lead :: matcher where
  "lead = rxSeq (rxAlt rxBol (rxLit 10)) (rxStar isWhiteSpace)"

definition group1 :: matcher where
  "group1 = rxSeq marker (rxUpto 50 notNewline)"

definition trail :: matcher where
  "trail = rxAlt (rxLit 10) rxEol"

text \<open>All matches that start at position \<open>i\<close>, in backtracking order: the start and the
  end of the capture group and the end of the whole match.\<close>

definition matchAt :: "jsstring \<Rightarrow> nat \<Rightarrow> (nat \<times> nat \<times> nat) list" where
  "matchAt s i =
     concat (map (\<lambda>g. concat (map (\<lambda>q. map (\<lambda>e. (g, q, e)) (trail s q)) (group1 s g)))
                 (lead s i))"

text \<open>\<open>chapterRegex.exec(text)\<close> with \<open>lastIndex = i\<close>: the leftmost start position with
  a match, and there the first match in backtracking order; \<open>None\<close> is \<open>null\<close>.\<close>

function exec :: "jsstring \<Rightarrow> nat \<Rightarrow> (nat \<times> nat \<times> nat \<times> nat) option" where
  "exec s i =
     (if length s < i then None
      else (case matchAt s i of
              [] \<Rightarrow> exec s (Suc i)
            | m # _ \<Rightarrow> Some (i, m)))"
  by pat_completeness auto
termination
  by (relation "measure (\<lambda>(s, i). Suc (length s) - i)") auto

declare exec.simps [simp del]


subsection \<open>Where a match can end\<close>

definition bounded :: "matcher \<Rightarrow> bool" where
  "bounded m = (\<forall>s i e. i \<le> length s \<longrightarrow> e \<in> set (m s i) \<longrightarrow> i \<le> e \<and> e \<le> length s)"

definition advancing :: "matcher \<Rightarrow> bool" where
  "advancing m = (\<forall>s i e. e \<in> set (m s i) \<longrightarrow> i < e \<and> e \<le> length s)"

lemma advancing_bounded: "advancing m \<Longrightarrow> bounded m"
  by (auto simp: advancing_def bounded_def dest: less_imp_le)

lemma advancing_rxChar: "advancing (rxChar P)"
  by (auto simp: advancing_def rxChar_def split: if_splits)

lemma advancing_rxLit: "advancing (rxLit c)"
  by (simp add: rxLit_def advancing_rxChar)

lemma bounded_rxBol: "bounded rxBol"
  by (auto simp: bounded_def rxBol_def split: if_splits)

lemma bounded_rxEol: "bounded rxEol"
  by (auto simp: bounded_def rxEol_def split: if_splits)

lemma rxStar_range: "i \<le> length s \<Longrightarrow> e \<in> set (rxStar P s i) \<Longrightarrow> i \<le> e \<and> e \<le> length s"
proof (induction P s i rule: rxStar.induct)
  case (1 P s i)
  show ?case
  proof (cases "i < length s \<and> P (s ! i)")
    case True
    with "1.prems" have "e \<in> set (rxStar P s (Suc i)) \<or> e = i"
      by (subst (asm) rxStar.simps) auto
    then show ?thesis
    proof
      assume "e \<in> set (rxStar P s (Suc i))"
      with "1.IH" True have "Suc i \<le> e \<and> e \<le> length s" by simp
      then show ?thesis by simp
    next
      assume "e = i"
      with "1.prems" show ?thesis by simp
    qed
  next
    case False
    with "1.prems" have "e = i"
      by (subst (asm) rxStar.simps) auto
    with "1.prems" show ?thesis by simp
  qed
qed

lemma bounded_rxStar: "bounded (rxStar P)"
  unfolding bounded_def using rxStar_range by blast

lemma rxUpto_range: "i \<le> length s \<Longrightarrow> e \<in> set (rxUpto n P s i) \<Longrightarrow> i \<le> e \<and> e \<le> length s"
proof (induction n arbitrary: i)
  case 0
  then show ?case by simp
next
  case (Suc n)
  show ?case
  proof (cases "i < length s \<and> P (s ! i)")
    case True
    with Suc.prems have "e \<in> set (rxUpto n P s (Suc i)) \<or> e = i" by auto
    then show ?thesis
    proof
      assume "e \<in> set (rxUpto n P s (Suc i))"
      with Suc.IH [of "Suc i"] True have "Suc i \<le> e \<and> e \<le> length s" by simp
      then show ?thesis by simp
    next
      assume "e = i"
      with Suc.prems show ?thesis by simp
    qed
  next
    case False
    with Suc.prems show ?thesis by auto
  qed
qed

lemma bounded_rxUpto: "bounded (rxUpto n P)"
  unfolding bounded_def using rxUpto_range by blast

lemma rxSeq_mem: "e \<in> set (rxSeq a b s i) \<longleftrightarrow> (\<exists>j \<in> set (a s i). e \<in> set (b s j))"
  by (auto simp: rxSeq_def)

lemma bounded_rxSeq:
  assumes "bounded a" and "bounded b"
  shows "bounded (rxSeq a b)"
  unfolding bounded_def
proof (intro allI impI)
  fix s i e
  assume i: "i \<le> length s" and "e \<in> set (rxSeq a b s i)"
  then obtain j where j: "j \<in> set (a s i)" and e: "e \<in> set (b s j)"
    by (auto simp: rxSeq_mem)
  from assms(1) i j have 1: "i \<le> j \<and> j \<le> length s" unfolding bounded_def by blast
  with assms(2) e have "j \<le> e \<and> e \<le> length s" unfolding bounded_def by blast
  with 1 show "i \<le> e \<and> e \<le> length s" by simp
qed

lemma advancing_rxSeq:
  assumes "advancing a" and "bounded b"
  shows "advancing (rxSeq a b)"
  unfolding advancing_def
proof (intro allI impI)
  fix s i e
  assume "e \<in> set (rxSeq a b s i)"
  then obtain j where j: "j \<in> set (a s i)" and e: "e \<in> set (b s j)"
    by (auto simp: rxSeq_mem)
  from assms(1) j have 1: "i < j \<and> j \<le> length s" unfolding advancing_def by blast
  with assms(2) e have "j \<le> e \<and> e \<le> length s" unfolding bounded_def by blast
  with 1 show "i < e \<and> e \<le> length s" by simp
qed

lemma rxAlt_mem: "e \<in> set (rxAlt a b s i) \<longleftrightarrow> e \<in> set (a s i) \<or> e \<in> set (b s i)"
  by (simp add: rxAlt_def)

lemma bounded_rxAlt:
  assumes "bounded a" and "bounded b"
  shows "bounded (rxAlt a b)"
  unfolding bounded_def
proof (intro allI impI)
  fix s i e
  assume i: "i \<le> length s" and "e \<in> set (rxAlt a b s i)"
  then have "e \<in> set (a s i) \<or> e \<in> set (b s i)" by (simp add: rxAlt_mem)
  then show "i \<le> e \<and> e \<le> length s"
  proof
    assume "e \<in> set (a s i)"
    with assms(1) i show ?thesis unfolding bounded_def by blast
  next
    assume "e \<in> set (b s i)"
    with assms(2) i show ?thesis unfolding bounded_def by blast
  qed
qed

lemma advancing_rxAlt:
  assumes "advancing a" and "advancing b"
  shows "advancing (rxAlt a b)"
  unfolding advancing_def
proof (intro allI impI)
  fix s i e
  assume "e \<in> set (rxAlt a b s i)"
  then have "e \<in> set (a s i) \<or> e \<in> set (b s i)" by (simp add: rxAlt_mem)
  then show "i < e \<and> e \<le> length s"
  proof
    assume "e \<in> set (a s i)"
    with assms(1) show ?thesis unfolding advancing_def by blast
  next
    assume "e \<in> set (b s i)"
    with assms(2) show ?thesis unfolding advancing_def by blast
  qed
qed

lemma advancing_rxPlus: "advancing (rxPlus P)"
  by (simp add: rxPlus_def advancing_rxSeq advancing_rxChar bounded_rxStar)

lemma bounded_rxWord: "bounded (rxWord cs)"
proof (induction cs)
  case Nil
  show ?case by (simp add: bounded_def)
next
  case (Cons c cs)
  then show ?case
    by (simp add: bounded_rxSeq advancing_bounded advancing_rxChar)
qed

lemma advancing_rxWord: "cs \<noteq> [] \<Longrightarrow> advancing (rxWord cs)"
  by (cases cs) (simp_all add: advancing_rxSeq advancing_rxChar bounded_rxWord)

lemma advancing_marker: "advancing marker"
  unfolding marker_def by (intro advancing_rxAlt advancing_rxSeq advancing_rxLit
      advancing_rxPlus advancing_rxWord bounded_rxSeq bounded_rxStar
      advancing_bounded [OF advancing_rxPlus] advancing_bounded [OF advancing_rxChar]
      advancing_bounded [OF advancing_rxLit]) (simp_all add: ascii_def)

lemma bounded_lead: "bounded lead"
  unfolding lead_def
  by (intro bounded_rxSeq bounded_rxAlt bounded_rxBol bounded_rxStar
      advancing_bounded [OF advancing_rxLit])

lemma advancing_group1: "advancing group1"
  unfolding group1_def by (intro advancing_rxSeq advancing_marker bounded_rxUpto)

lemma bounded_trail: "bounded trail"
  unfolding trail_def
  by (intro bounded_rxAlt bounded_rxEol advancing_bounded [OF advancing_rxLit])

lemma matchAt_range:
  assumes "i \<le> length s" and "(g, q, e) \<in> set (matchAt s i)"
  shows "i \<le> g \<and> g < q \<and> q \<le> e \<and> e \<le> length s"
proof -
  from assms(2) have g: "g \<in> set (lead s i)" and q: "q \<in> set (group1 s g)"
    and e: "e \<in> set (trail s q)"
    by (auto simp: matchAt_def)
  from bounded_lead assms(1) g have 1: "i \<le> g \<and> g \<le> length s"
    unfolding bounded_def by blast
  from advancing_group1 q have 2: "g < q \<and> q \<le> length s"
    unfolding advancing_def by blast
  from bounded_trail 2 e have 3: "q \<le> e \<and> e \<le> length s"
    unfolding bounded_def by blast
  from 1 2 3 show ?thesis by simp
qed

lemma exec_range:
  "exec s i = Some (k, g, q, e) \<Longrightarrow> i \<le> k \<and> k \<le> g \<and> g < q \<and> q \<le> e \<and> e \<le> length s"
proof (induction s i rule: exec.induct)
  case (1 s i)
  show ?case
  proof (cases "length s < i")
    case True
    with "1.prems" show ?thesis by (subst (asm) exec.simps) simp
  next
    case False
    show ?thesis
    proof (cases "matchAt s i")
      case Nil
      with False "1.prems" have "exec s (Suc i) = Some (k, g, q, e)"
        by (subst (asm) exec.simps) simp
      with "1.IH" False Nil have "Suc i \<le> k \<and> k \<le> g \<and> g < q \<and> q \<le> e \<and> e \<le> length s"
        by simp
      then show ?thesis by simp
    next
      case (Cons m ms)
      with False "1.prems" have "k = i" and "m = (g, q, e)"
        by (subst (asm) exec.simps, simp)+
      with Cons have "(g, q, e) \<in> set (matchAt s i)" by simp
      with False matchAt_range [of i s g q e] \<open>k = i\<close> show ?thesis by simp
    qed
  qed
qed

section \<open>Pass 1: the chapter start points\<close>

record ChapterPoint =
  pointTitle :: jsstring
  startIndex :: int

text \<open>\<open>invalidTitleChars\<close>: comma, fullwidth comma, ideographic full stop, fullwidth
  question and exclamation marks, the two double curly quotes, \<open>!\<close>, \<open>?\<close>, the straight
  double and single quotes, and the semicolon.\<close>

definition invalidTitleChars :: "nat \<Rightarrow> bool" where
  "invalidTitleChars c =
     (c \<in> set [44, 65292, 12290, 65311, 65281, 8220, 8221, 33, 63, 34, 39, 59])"

text \<open>The body of the \<open>while\<close> loop for one match \<open>(index, group start, group end, end)\<close>:
  the two \<open>continue\<close> statements leave the points as they are.\<close>

definition pushPoint ::
  "jsstring \<Rightarrow> nat \<times> nat \<times> nat \<times> nat \<Rightarrow> ChapterPoint list \<Rightarrow> ChapterPoint list" where
  "pushPoint text m points =
     (case m of (i, g, q, e) \<Rightarrow>
        (let rawMatch = slice text i e;
             match1 = slice text g q;
             titleLine = trim match1
         in if list_ex invalidTitleChars titleLine then points
            else if length titleLine > 50 \<or> length titleLine = 0 then points
            else (let offsetInMatch = indexOf rawMatch match1
                  in points @ [\<lparr>pointTitle = titleLine,
                                 startIndex = int i + offsetInMatch\<rparr>])))"

text \<open>The loop \<open>while ((match = chapterRegex.exec(text)) !== null)\<close>; the engine
  continues at \<open>lastIndex\<close>, the end of the previous match.\<close>

function collectPoints :: "jsstring \<Rightarrow> nat \<Rightarrow> ChapterPoint list \<Rightarrow> ChapterPoint list" where
  "collectPoints text lastIndex points =
     (case exec text lastIndex of
        None \<Rightarrow> points
      | Some m \<Rightarrow> collectPoints text (snd (snd (snd m))) (pushPoint text m points))"
  by pat_completeness auto
termination
proof (relation "measure (\<lambda>(text, lastIndex, points). length text - lastIndex)")
  show "wf (measure (\<lambda>(text, lastIndex, points). length text - lastIndex))" by simp
next
  fix s :: jsstring and lastIndex :: nat and points :: "ChapterPoint list"
    and m :: "nat \<times> nat \<times> nat \<times> nat"
  assume m: "exec s lastIndex = Some m"
  obtain k g q e where "m = (k, g, q, e)" by (cases m) auto
  with m exec_range [of s lastIndex k g q e]
  have "lastIndex < e \<and> e \<le> length s" and "snd (snd (snd m)) = e" by auto
  then show "((s, snd (snd (snd m)), pushPoint s m points), s, lastIndex, points)
      \<in> measure (\<lambda>(text, lastIndex, points). length text - lastIndex)"
    by (simp add: diff_less_mono2)
qed

declare collectPoints.simps [simp del]

section \<open>Pass 2: the chapters\<close>

text \<open>The interface \<open>Chapter\<close> of the type declarations: \<open>id\<close>, \<open>title\<close> and
  \<open>index\<close> are required; \<open>content\<close>, \<open>startStringIndex\<close> and \<open>endStringIndex\<close> are
  optional (\<open>None\<close> is \<open>undefined\<close>). The field \<open>id\<close> is \<open>idC\<close>.\<close>

record Chapter =
  idC :: jsstring
  title :: jsstring
  index :: nat
  content :: "jsstring option"
  startStringIndex :: "int option"
  endStringIndex :: "int option"

text \<open>The \<open>for\<close> loop over the points, from the current point on, with the running
  \<open>chapterCounter\<close>; \<open>n\<close> is \<open>text.length\<close>.\<close>

fun chaptersFrom :: "ChapterPoint list \<Rightarrow> nat \<Rightarrow> int \<Rightarrow> Chapter list" where
  "chaptersFrom [] chapterCounter n = []"
| "chaptersFrom (currentPoint # rest) chapterCounter n =
     \<lparr>idC = ascii ''chap-'' @ digits chapterCounter,
      title = pointTitle currentPoint,
      index = chapterCounter,
      content = None,
      startStringIndex = Some (startIndex currentPoint),
      endStringIndex = Some (case rest of [] \<Rightarrow> n | nextPoint # _ \<Rightarrow> startIndex nextPoint)\<rparr>
     # chaptersFrom rest (Suc chapterCounter) n"

text \<open>The titles of the two synthetic chapters: U+5F00 U+59CB (``beginning'') and
  U+5168 U+6587 (``full text'').\<close>

definition titleBeginning :: jsstring where
  "titleBeginning = [24320, 22987]"

definition titleFullText :: jsstring where
  "titleFullText = [20840, 25991]"

definition buildChapters :: "ChapterPoint list \<Rightarrow> jsstring \<Rightarrow> Chapter list" where
  "buildChapters points text =
     (if points \<noteq> [] \<and> startIndex (hd points) > 50 then
        \<lparr>idC = ascii ''chap-pre'', title = titleBeginning, index = 0, content = None,
         startStringIndex = Some 0, endStringIndex = Some (startIndex (hd points))\<rparr>
        # chaptersFrom points 1 (int (length text))
      else if points = [] then
        [\<lparr>idC = ascii ''chap-0'', title = titleFullText, index = 0, content = None,
          startStringIndex = Some 0, endStringIndex = Some (int (length text))\<rparr>]
      else chaptersFrom points 0 (int (length text)))"

definition parseTxtContentOptimized :: "jsstring \<Rightarrow> Chapter list" where
  "parseTxtContentOptimized text = buildChapters (collectPoints text 0 []) text"


section \<open>Evaluation rules\<close>

lemma rxUpto_unfold:
  "rxUpto n P s i =
     (if n = 0 then [i]
      else if i < length s \<and> P (s ! i) then rxUpto (n - 1) P s (Suc i) @ [i] else [i])"
  by (cases n) simp_all

lemmas rx_eval = exec.simps matchAt_def lead_def group1_def trail_def marker_def
  rxSeq_def rxAlt_def rxChar_def rxLit_def rxPlus_def rxBol_def rxEol_def rxStar.simps
  rxUpto_unfold ascii_def ci_def isDigit_def isNumeral_def isUnit_def isRoman_def
  notNewline_def isWhiteSpace_def isLineTerminator_def

lemmas point_eval = collectPoints.simps pushPoint_def slice_def trim_def indexOf_def
  invalidTitleChars_def

lemmas build_eval = parseTxtContentOptimized_def buildChapters_def digits.simps
  titleBeginning_def titleFullText_def

section \<open>The points of pass 1 are ordered and inside the text\<close>

lemma indexOfFrom_bounds:
  "prefix t (drop j xs) \<Longrightarrow> j \<le> length xs \<Longrightarrow>
     int k \<le> indexOfFrom xs t k \<and> indexOfFrom xs t k \<le> int (k + j)"
proof (induction xs arbitrary: j k)
  case Nil
  then show ?case by simp
next
  case (Cons x xs)
  show ?case
  proof (cases "prefix t (x # xs)")
    case True
    then show ?thesis by simp
  next
    case False
    with Cons.prems obtain j' where j: "j = Suc j'" by (cases j) auto
    with Cons.prems have "prefix t (drop j' xs)" and "j' \<le> length xs" by auto
    from Cons.IH [OF this, of "Suc k"] False j show ?thesis by simp
  qed
qed

lemma slice_prefix:
  assumes "k \<le> g" and "g \<le> q" and "q \<le> e"
  shows "prefix (slice s g q) (drop (g - k) (slice s k e))"
proof -
  from assms have "drop (g - k) (slice s k e) = take (e - g) (drop g s)"
    by (simp add: slice_def drop_take)
  moreover from assms have "slice s g q = take (q - g) (take (e - g) (drop g s))"
    by (simp add: slice_def min_def)
  moreover have "prefix (take (q - g) (take (e - g) (drop g s))) (take (e - g) (drop g s))"
    by (rule take_is_prefix)
  ultimately show ?thesis by (simp only:)
qed

lemma offsetInMatch_bounds:
  assumes "k \<le> g" and "g \<le> q" and "q \<le> e" and "e \<le> length s"
  shows "0 \<le> indexOf (slice s k e) (slice s g q) \<and>
         indexOf (slice s k e) (slice s g q) \<le> int (g - k)"
proof -
  from assms have "g - k \<le> length (slice s k e)" by (simp add: slice_def)
  from indexOfFrom_bounds [OF slice_prefix [OF assms(1-3)] this, of 0]
  show ?thesis by (simp add: indexOf_def)
qed

definition pointsBelow :: "ChapterPoint list \<Rightarrow> int \<Rightarrow> bool" where
  "pointsBelow points b =
     (sorted_wrt (<) (map startIndex points) \<and> list_all (\<lambda>p. 0 \<le> startIndex p \<and> startIndex p < b) points)"

lemma pointsBelow_mono: "pointsBelow points b \<Longrightarrow> b \<le> c \<Longrightarrow> pointsBelow points c"
  by (auto simp: pointsBelow_def list_all_iff)

lemma pointsBelow_snoc:
  "pointsBelow points b \<Longrightarrow> b \<le> startIndex p \<Longrightarrow> startIndex p < c \<Longrightarrow> 0 \<le> b \<Longrightarrow>
     pointsBelow (points @ [p]) c"
  by (auto simp: pointsBelow_def list_all_iff sorted_wrt_append)

lemma pushPoint_below:
  assumes m: "exec s lastIndex = Some (k, g, q, e)"
    and below: "pointsBelow points (int lastIndex)"
  shows "pointsBelow (pushPoint s (k, g, q, e) points) (int e)"
proof -
  from exec_range [OF m] have r: "lastIndex \<le> k" "k \<le> g" "g < q" "q \<le> e" "e \<le> length s"
    by simp_all
  then have le: "int lastIndex \<le> int e" by simp
  from r offsetInMatch_bounds [of k g q e s]
  have off: "0 \<le> indexOf (slice s k e) (slice s g q)"
    "indexOf (slice s k e) (slice s g q) \<le> int (g - k)" by simp_all
  let ?p = "\<lparr>pointTitle = trim (slice s g q),
             startIndex = int k + indexOf (slice s k e) (slice s g q)\<rparr>"
  from r off have lo: "int lastIndex \<le> startIndex ?p" by simp
  from r off have hi: "startIndex ?p < int e" by simp
  have new: "pointsBelow (points @ [?p]) (int e)"
    by (rule pointsBelow_snoc [OF below lo hi]) simp
  show ?thesis
    using new pointsBelow_mono [OF below le] by (simp add: pushPoint_def Let_def)
qed

lemma collectPoints_below:
  "pointsBelow points (int lastIndex) \<Longrightarrow> lastIndex \<le> length s \<Longrightarrow>
     pointsBelow (collectPoints s lastIndex points) (int (length s))"
proof (induction s lastIndex points rule: collectPoints.induct)
  case (1 s lastIndex points)
  show ?case
  proof (cases "exec s lastIndex")
    case None
    with "1.prems" show ?thesis
      by (subst collectPoints.simps) (simp add: pointsBelow_mono)
  next
    case (Some m)
    obtain k g q e where m: "m = (k, g, q, e)" by (cases m) auto
    from Some m have ex: "exec s lastIndex = Some (k, g, q, e)" by simp
    from exec_range [OF ex] have e: "e \<le> length s" by simp
    from pushPoint_below [OF ex "1.prems"(1)]
    have "pointsBelow (pushPoint s m points) (int (snd (snd (snd m))))" by (simp add: m)
    from "1.IH" [OF Some this] e m
    have "pointsBelow (collectPoints s (snd (snd (snd m))) (pushPoint s m points))
            (int (length s))" by simp
    with Some show ?thesis by (subst collectPoints.simps) simp
  qed
qed

lemma collectPoints_ordered: "pointsBelow (collectPoints s 0 []) (int (length s))"
  by (rule collectPoints_below) (simp_all add: pointsBelow_def)


section \<open>Properties of the chapter sequence\<close>

text \<open>The coverage property as the specification words it, for a text of length \<open>n\<close>:
  consecutive chapters are contiguous, the first starts at 0, the last ends at \<open>n\<close>, and
  every chapter has \<open>0 \<le> start < end \<le> n\<close>.\<close>

fun contiguous :: "Chapter list \<Rightarrow> bool" where
  "contiguous (a # b # rest) = (endStringIndex a = startStringIndex b \<and> contiguous (b # rest))"
| "contiguous _ = True"

definition wellRanged :: "int \<Rightarrow> Chapter \<Rightarrow> bool" where
  "wellRanged n c =
     (case (startStringIndex c, endStringIndex c) of
        (Some a, Some b) \<Rightarrow> 0 \<le> a \<and> a < b \<and> b \<le> n
      | _ \<Rightarrow> False)"

definition coversText :: "Chapter list \<Rightarrow> int \<Rightarrow> bool" where
  "coversText chapters n =
     (chapters \<noteq> [] \<and> contiguous chapters \<and> startStringIndex (hd chapters) = Some 0
      \<and> endStringIndex (last chapters) = Some n \<and> list_all (wellRanged n) chapters)"

lemma chaptersFrom_Nil_iff: "chaptersFrom points c n = [] \<longleftrightarrow> points = []"
  by (cases points) simp_all

lemma chaptersFrom_contiguous: "contiguous (chaptersFrom points c n)"
proof (induction points arbitrary: c)
  case Nil
  show ?case by simp
next
  case (Cons p ps)
  show ?case
  proof (cases ps)
    case Nil
    then show ?thesis by simp
  next
    case (Cons q qs)
    with Cons.IH [of "Suc c"] show ?thesis by simp
  qed
qed

lemma chaptersFrom_hd:
  "startStringIndex (hd (chaptersFrom (p # ps) c n)) = Some (startIndex p)"
  by simp

lemma chaptersFrom_last:
  "points \<noteq> [] \<Longrightarrow> endStringIndex (last (chaptersFrom points c n)) = Some n"
proof (induction points arbitrary: c)
  case Nil
  then show ?case by simp
next
  case (Cons p ps)
  show ?case
  proof (cases ps)
    case Nil
    then show ?thesis by simp
  next
    case (Cons q qs)
    with Cons.IH [of "Suc c"] show ?thesis by simp
  qed
qed

lemma chaptersFrom_ranged:
  "pointsBelow points n \<Longrightarrow> list_all (wellRanged n) (chaptersFrom points c n)"
proof (induction points arbitrary: c)
  case Nil
  show ?case by simp
next
  case (Cons p ps)
  from Cons.prems have tl: "pointsBelow ps n"
    by (simp add: pointsBelow_def)
  from Cons.prems have p: "0 \<le> startIndex p" "startIndex p < n"
    by (simp_all add: pointsBelow_def)
  show ?case
  proof (cases ps)
    case Nil
    with p show ?thesis by (simp add: wellRanged_def)
  next
    case (Cons q qs)
    with Cons.prems have "startIndex p < startIndex q" "startIndex q < n"
      by (simp_all add: pointsBelow_def)
    with p Cons Cons.IH [OF tl, of "Suc c"] show ?thesis
      by (simp add: wellRanged_def)
  qed
qed

lemma contiguous_Cons:
  "chs \<noteq> [] \<Longrightarrow> contiguous (c # chs) = (endStringIndex c = startStringIndex (hd chs) \<and> contiguous chs)"
  by (cases chs) simp_all


definition validTitle :: "ChapterPoint \<Rightarrow> bool" where
  "validTitle p =
     (\<not> list_ex invalidTitleChars (pointTitle p) \<and> 0 < length (pointTitle p)
      \<and> length (pointTitle p) \<le> 50)"

lemma pushPoint_valid: "list_all validTitle points \<Longrightarrow> list_all validTitle (pushPoint s m points)"
  by (cases m) (simp add: pushPoint_def Let_def validTitle_def)

lemma collectPoints_valid:
  "list_all validTitle points \<Longrightarrow> list_all validTitle (collectPoints s lastIndex points)"
proof (induction s lastIndex points rule: collectPoints.induct)
  case (1 s lastIndex points)
  show ?case
  proof (cases "exec s lastIndex")
    case None
    with "1.prems" show ?thesis by (subst collectPoints.simps) simp
  next
    case (Some m)
    from "1.IH" [OF Some pushPoint_valid [OF "1.prems"]] Some
    show ?thesis by (subst collectPoints.simps) simp
  qed
qed

section \<open>Sample texts\<close>

text \<open>A five-character title line, then a heading and one line of prose.\<close>

definition textWithFrontMatter :: jsstring where
  "textWithFrontMatter = ascii ''Title'' @ [10] @ ascii ''Chapter 1'' @ [10] @ ascii ''Hello''"

text \<open>The line of scenario C: U+7B2C \<open>1\<close> U+7AE0, a fullwidth comma, three characters
  and a fullwidth question mark; alone, and between two lines of prose.\<close>

definition proseLine :: jsstring where
  "proseLine = [31532, 49, 31456, 65292, 30495, 30340, 21527, 65311]"

definition proseLineInContext :: jsstring where
  "proseLineInContext = ascii ''abc'' @ [10] @ proseLine @ [10] @ ascii ''def''"

lemma textWithFrontMatter_parse:
  "parseTxtContentOptimized textWithFrontMatter =
     [\<lparr>idC = ascii ''chap-0'', title = ascii ''Chapter 1'', index = 0, content = None,
       startStringIndex = Some 6, endStringIndex = Some 21\<rparr>]"
  by (simp add: textWithFrontMatter_def rx_eval point_eval build_eval)

lemma proseLine_parse:
  "parseTxtContentOptimized proseLine =
     [\<lparr>idC = ascii ''chap-0'', title = titleFullText, index = 0, content = None,
       startStringIndex = Some 0, endStringIndex = Some 8\<rparr>]"
  by (simp add: proseLine_def rx_eval point_eval build_eval)

lemma proseLineInContext_parse:
  "parseTxtContentOptimized proseLineInContext =
     [\<lparr>idC = ascii ''chap-0'', title = titleFullText, index = 0, content = None,
       startStringIndex = Some 0, endStringIndex = Some 16\<rparr>]"
  by (simp add: proseLineInContext_def proseLine_def rx_eval point_eval build_eval)


text \<open>Fifty spaces before the first heading: the first boundary is at offset 50 exactly.\<close>

definition indentedHeading :: jsstring where
  "indentedHeading = replicate 50 32 @ ascii ''Chapter 1''"

text \<open>A heading with an ASCII full stop in its title.\<close>

definition dottedHeading :: jsstring where
  "dottedHeading = ascii ''Chapter 1. Start''"

text \<open>A text without any heading.\<close>

definition plainText :: jsstring where
  "plainText = ascii ''hello''"

lemma replicate_unfold: "replicate n x = (if n = 0 then [] else x # replicate (n - 1) x)"
  by (cases n) simp_all

lemma indentedHeading_points:
  "collectPoints indentedHeading 0 [] = [\<lparr>pointTitle = ascii ''Chapter 1'', startIndex = 50\<rparr>]"
  by (simp add: indentedHeading_def replicate_unfold rx_eval point_eval)

lemma indentedHeading_length: "length indentedHeading = 59"
  by (simp add: indentedHeading_def ascii_def)

lemma dottedHeading_points:
  "collectPoints dottedHeading 0 [] = [\<lparr>pointTitle = ascii ''Chapter 1. Start'', startIndex = 0\<rparr>]"
  by (simp add: dottedHeading_def rx_eval point_eval)

lemma plainText_points: "collectPoints plainText 0 [] = []"
  by (simp add: plainText_def rx_eval point_eval)

lemma empty_points: "collectPoints [] 0 [] = []"
  using collectPoints_ordered [of "[]"] by (cases "collectPoints [] 0 []") (auto simp: pointsBelow_def)

section \<open>The claims about the plain-text parser\<close>

text \<open>
  C1 (as stated, refuted). The chapters of \<open>textWithFrontMatter\<close> do not cover the text:
  the only chapter starts at offset 6, after the title line, so the first six characters
  belong to no chapter.
\<close>

theorem C1_coverage_counterexample:
  "\<not> coversText (parseTxtContentOptimized textWithFrontMatter) (int (length textWithFrontMatter))"
  by (simp add: textWithFrontMatter_parse coversText_def)

text \<open>
  C1 (amended). For every text the chapter sequence is non-empty and contiguous and its
  last chapter ends at the length of the text. The first chapter starts at 0 when there
  is no candidate or the first candidate lies beyond offset 50, and at the first
  candidate's own offset (at most 50) otherwise. Every chapter satisfies
  \<open>0 \<le> start < end \<le> length\<close> unless the text is empty, where the single chapter is
  \<open>[0, 0)\<close>.
\<close>

theorem C1_coverage_amended:
  "parseTxtContentOptimized text \<noteq> []
   \<and> contiguous (parseTxtContentOptimized text)
   \<and> endStringIndex (last (parseTxtContentOptimized text)) = Some (int (length text))
   \<and> startStringIndex (hd (parseTxtContentOptimized text)) =
       Some (case collectPoints text 0 [] of
               [] \<Rightarrow> 0
             | p # _ \<Rightarrow> if 50 < startIndex p then 0 else startIndex p)
   \<and> (case collectPoints text 0 [] of [] \<Rightarrow> True | p # _ \<Rightarrow> 0 \<le> startIndex p)
   \<and> (text \<noteq> [] \<longrightarrow> list_all (wellRanged (int (length text))) (parseTxtContentOptimized text))
   \<and> (text = [] \<longrightarrow> parseTxtContentOptimized text =
         [\<lparr>idC = ascii ''chap-0'', title = titleFullText, index = 0, content = None,
           startStringIndex = Some 0, endStringIndex = Some 0\<rparr>])"
proof -
  let ?n = "int (length text)"
  let ?pts = "collectPoints text 0 []"
  have below: "pointsBelow ?pts ?n" by (rule collectPoints_ordered)
  show ?thesis
  proof (cases ?pts)
    case Nil
    then have "parseTxtContentOptimized text =
        [\<lparr>idC = ascii ''chap-0'', title = titleFullText, index = 0, content = None,
          startStringIndex = Some 0, endStringIndex = Some ?n\<rparr>]"
      by (simp add: parseTxtContentOptimized_def buildChapters_def)
    with Nil show ?thesis by (cases "text = []") (simp_all add: wellRanged_def)
  next
    case (Cons p ps)
    from below Cons have p: "0 \<le> startIndex p" "startIndex p < ?n"
      by (simp_all add: pointsBelow_def)
    then have nonempty: "text \<noteq> []" by auto
    have ranged: "list_all (wellRanged ?n) (chaptersFrom ?pts c ?n)" for c
      by (rule chaptersFrom_ranged [OF below])
    have cont: "contiguous (chaptersFrom ?pts c ?n)" for c
      by (rule chaptersFrom_contiguous)
    have lst: "endStringIndex (last (chaptersFrom ?pts c ?n)) = Some ?n" for c
      by (rule chaptersFrom_last) (simp add: Cons)
    have ne: "chaptersFrom ?pts c ?n \<noteq> []" for c
      by (simp add: chaptersFrom_Nil_iff Cons)
    have hd: "startStringIndex (hd (chaptersFrom ?pts c ?n)) = Some (startIndex p)" for c
      by (simp add: Cons)
    show ?thesis
    proof (cases "50 < startIndex p")
      case True
      with Cons have eq: "parseTxtContentOptimized text =
          \<lparr>idC = ascii ''chap-pre'', title = titleBeginning, index = 0, content = None,
           startStringIndex = Some 0, endStringIndex = Some (startIndex p)\<rparr>
          # chaptersFrom ?pts 1 ?n"
        by (simp add: parseTxtContentOptimized_def buildChapters_def)
      from True p have "wellRanged ?n \<lparr>idC = ascii ''chap-pre'', title = titleBeginning,
          index = 0, content = None, startStringIndex = Some 0,
          endStringIndex = Some (startIndex p)\<rparr>"
        by (simp add: wellRanged_def)
      with eq True p nonempty ranged [of 1] cont [of 1] lst [of 1] ne [of 1] hd [of 1] Cons
      show ?thesis by (simp add: contiguous_Cons)
    next
      case False
      with Cons have eq: "parseTxtContentOptimized text = chaptersFrom ?pts 0 ?n"
        by (simp add: parseTxtContentOptimized_def buildChapters_def)
      with False p nonempty ranged [of 0] cont [of 0] lst [of 0] ne [of 0] hd [of 0] Cons
      show ?thesis by simp
    qed
  qed
qed

theorem C1_coverage_amended_witness:
  "textWithFrontMatter \<noteq> []
   \<and> list_all (wellRanged (int (length textWithFrontMatter)))
        (parseTxtContentOptimized textWithFrontMatter)
   \<and> contiguous (parseTxtContentOptimized textWithFrontMatter)"
proof -
  have "textWithFrontMatter \<noteq> []" by (simp add: textWithFrontMatter_def ascii_def)
  with C1_coverage_amended [of textWithFrontMatter] show ?thesis by blast
qed


text \<open>
  C2 (as stated, refuted). With the first candidate at offset 50 exactly no leading
  chapter is emitted, but the first real chapter starts at offset 50, not at offset 0.
\<close>

theorem C2_threshold_counterexample:
  "buildChapters (collectPoints indentedHeading 0 []) indentedHeading =
     [\<lparr>idC = ascii ''chap-0'', title = ascii ''Chapter 1'', index = 0, content = None,
       startStringIndex = Some 50, endStringIndex = Some 59\<rparr>]"
  by (simp add: indentedHeading_points indentedHeading_length buildChapters_def
      digits.simps ascii_def)

text \<open>
  C2 (amended). For every non-empty candidate sequence: if the first candidate's offset
  is greater than 50, the builder emits a leading chapter \<open>chap-pre\<close> with the generic
  ``beginning'' title covering \<open>[0, first offset)\<close>, followed by the chapters of the
  candidates numbered from 1; if it is at most 50, no leading chapter is emitted and the
  first chapter is the one of the first candidate, with the candidate's title, starting
  at the candidate's own offset.
\<close>

theorem C2_leading_chapter_amended:
  assumes "points = p # ps"
  shows "(50 < startIndex p \<longrightarrow>
            buildChapters points text =
              \<lparr>idC = ascii ''chap-pre'', title = titleBeginning, index = 0, content = None,
               startStringIndex = Some 0, endStringIndex = Some (startIndex p)\<rparr>
              # chaptersFrom points 1 (int (length text)))
       \<and> (startIndex p \<le> 50 \<longrightarrow>
            buildChapters points text = chaptersFrom points 0 (int (length text))
            \<and> title (hd (buildChapters points text)) = pointTitle p
            \<and> index (hd (buildChapters points text)) = 0
            \<and> startStringIndex (hd (buildChapters points text)) = Some (startIndex p))"
  using assms by (simp add: buildChapters_def)

theorem C2_leading_chapter_amended_witness:
  "buildChapters [\<lparr>pointTitle = ascii ''Chapter 1'', startIndex = 51\<rparr>] (replicate 60 32) =
     \<lparr>idC = ascii ''chap-pre'', title = titleBeginning, index = 0, content = None,
      startStringIndex = Some 0, endStringIndex = Some 51\<rparr>
     # chaptersFrom [\<lparr>pointTitle = ascii ''Chapter 1'', startIndex = 51\<rparr>] 1 60
   \<and> startStringIndex
        (hd (buildChapters [\<lparr>pointTitle = ascii ''Chapter 1'', startIndex = 50\<rparr>] (replicate 60 32)))
       = Some 50"
  using C2_leading_chapter_amended
      [of "[\<lparr>pointTitle = ascii ''Chapter 1'', startIndex = 51\<rparr>]"
          "\<lparr>pointTitle = ascii ''Chapter 1'', startIndex = 51\<rparr>" "[]" "replicate 60 32"]
    C2_leading_chapter_amended
      [of "[\<lparr>pointTitle = ascii ''Chapter 1'', startIndex = 50\<rparr>]"
          "\<lparr>pointTitle = ascii ''Chapter 1'', startIndex = 50\<rparr>" "[]" "replicate 60 32"]
  by simp

text \<open>
  C3. When pass 1 produces no candidate, the parser returns exactly one chapter, titled
  with the generic ``full text'' label, from offset 0 to the length of the text.
\<close>

theorem C3_single_chapter_fallback:
  "collectPoints text 0 [] = [] \<Longrightarrow>
     parseTxtContentOptimized text =
       [\<lparr>idC = ascii ''chap-0'', title = titleFullText, index = 0, content = None,
         startStringIndex = Some 0, endStringIndex = Some (int (length text))\<rparr>]"
  by (simp add: parseTxtContentOptimized_def buildChapters_def)

theorem C3_single_chapter_fallback_witness:
  "collectPoints plainText 0 [] = []
   \<and> parseTxtContentOptimized plainText =
       [\<lparr>idC = ascii ''chap-0'', title = titleFullText, index = 0, content = None,
         startStringIndex = Some 0, endStringIndex = Some (int (length plainText))\<rparr>]"
  using C3_single_chapter_fallback [OF plainText_points] plainText_points by simp

text \<open>
  C4 (as stated, refuted). The title of \<open>dottedHeading\<close> contains a full stop (code unit
  46) and the line is promoted to a chapter boundary all the same.
\<close>

theorem C4_full_stop_counterexample:
  "collectPoints dottedHeading 0 [] =
     [\<lparr>pointTitle = ascii ''Chapter 1. Start'', startIndex = 0\<rparr>]
   \<and> 46 \<in> set (ascii ''Chapter 1. Start'')"
  by (simp add: dottedHeading_points) (simp add: ascii_def)

text \<open>
  C4 (amended). A candidate is rejected (the points stay as they are) when its trimmed
  title contains one of the
  twelve characters of \<open>invalidTitleChars\<close> (ASCII and fullwidth comma, ideographic full
  stop, ASCII and fullwidth question and exclamation marks, the double curly quotes, the
  straight double and single quotes, the semicolon; the ASCII full stop is not among
  them) or when its length is 0 or exceeds 50: every point that pass 1 emits has a title
  free of these characters and of length 1 to 50. The line of scenario C is not a
  boundary, alone or between lines of prose, and the result is then the single-chapter
  fallback.
\<close>

theorem C4_rejection_amended:
  "(list_ex invalidTitleChars (trim (slice text g q))
      \<or> length (trim (slice text g q)) = 0 \<or> 50 < length (trim (slice text g q))
      \<longrightarrow> pushPoint text (i, g, q, e) points = points)
   \<and> (\<forall>p \<in> set (collectPoints text 0 []).
      (\<forall>c \<in> set (pointTitle p).
         c \<notin> {44, 65292, 12290, 65311, 65281, 8220, 8221, 33, 63, 34, 39, 59})
      \<and> 0 < length (pointTitle p) \<and> length (pointTitle p) \<le> 50)
   \<and> collectPoints proseLine 0 [] = []
   \<and> parseTxtContentOptimized proseLine =
       [\<lparr>idC = ascii ''chap-0'', title = titleFullText, index = 0, content = None,
         startStringIndex = Some 0, endStringIndex = Some 8\<rparr>]
   \<and> parseTxtContentOptimized proseLineInContext =
       [\<lparr>idC = ascii ''chap-0'', title = titleFullText, index = 0, content = None,
         startStringIndex = Some 0, endStringIndex = Some 16\<rparr>]"
proof -
  have "list_all validTitle (collectPoints text 0 [])"
    by (rule collectPoints_valid) simp
  then have "\<forall>p \<in> set (collectPoints text 0 []).
      (\<forall>c \<in> set (pointTitle p).
         c \<notin> {44, 65292, 12290, 65311, 65281, 8220, 8221, 33, 63, 34, 39, 59})
      \<and> 0 < length (pointTitle p) \<and> length (pointTitle p) \<le> 50"
    by (auto simp: list_all_iff validTitle_def list_ex_iff invalidTitleChars_def)
  moreover have "collectPoints proseLine 0 [] = []"
    by (simp add: proseLine_def rx_eval point_eval)
  moreover have "list_ex invalidTitleChars (trim (slice text g q))
      \<or> length (trim (slice text g q)) = 0 \<or> 50 < length (trim (slice text g q))
      \<longrightarrow> pushPoint text (i, g, q, e) points = points"
    by (auto simp: pushPoint_def Let_def)
  ultimately show ?thesis
    using proseLine_parse proseLineInContext_parse by simp
qed

theorem C4_rejection_amended_witness:
  "\<lparr>pointTitle = ascii ''Chapter 1. Start'', startIndex = 0\<rparr> \<in> set (collectPoints dottedHeading 0 [])
   \<and> 0 < length (ascii ''Chapter 1. Start'')
   \<and> length (ascii ''Chapter 1. Start'') \<le> 50
   \<and> 44 \<notin> set (ascii ''Chapter 1. Start'')
   \<and> 12290 \<notin> set (ascii ''Chapter 1. Start'')"
proof -
  have mem: "\<lparr>pointTitle = ascii ''Chapter 1. Start'', startIndex = 0\<rparr>
      \<in> set (collectPoints dottedHeading 0 [])"
    by (simp add: dottedHeading_points)
  from C4_rejection_amended [of dottedHeading] mem show ?thesis by fastforce
qed


section \<open>Lazy materialization of the active chapter\<close>

text \<open>Errors of the model: a JavaScript exception or a rejected promise.\<close>

datatype jserror =
    TypeError
  | UnsupportedFormat
  | MammothNotLoaded
  | EpubNotLoaded
  | ReadError
  | DecodeError
  | ConverterError

text \<open>A value used as a condition: \<open>undefined\<close>, \<open>null\<close> and the empty string are
  falsy.\<close>

definition truthy :: "jsstring option \<Rightarrow> bool" where
  "truthy v = (case v of None \<Rightarrow> False | Some s \<Rightarrow> s \<noteq> [])"

text \<open>\<open>s.split('\n')\<close>: the lines between the line feeds; the result is never empty.\<close>

fun splitLines :: "jsstring \<Rightarrow> jsstring list" where
  "splitLines [] = [[]]"
| "splitLines (c # cs) =
     (if c = 10 then [] # splitLines cs
      else (c # hd (splitLines cs)) # tl (splitLines cs))"

definition paragraphUnit :: "jsstring \<Rightarrow> jsstring" where
  "paragraphUnit line = ascii ''<p>'' @ line @ ascii ''</p>''"

definition renderParagraphs :: "jsstring \<Rightarrow> jsstring" where
  "renderParagraphs rawContent = concat (map paragraphUnit (splitLines rawContent))"

text \<open>The de-duplication of the title line: the value of \<open>rawContent\<close> after the
  \<open>if (firstNewline !== -1)\<close> block.\<close>

definition dedupTitle :: "jsstring \<Rightarrow> jsstring \<Rightarrow> jsstring" where
  "dedupTitle chapterTitle rawContent =
     (let firstNewline = indexOf rawContent [10]
      in if firstNewline \<noteq> -1 then
           (let firstLine = trim (substring rawContent 0 firstNewline)
            in if includesStr firstLine (trim chapterTitle)
                  \<or> includesStr (trim chapterTitle) firstLine
               then substring rawContent (firstNewline + 1) (int (length rawContent))
               else rawContent)
         else rawContent)"

text \<open>The slice of the full text that belongs to an offset-based chapter.\<close>

definition chapterSlice :: "Chapter \<Rightarrow> jsstring \<Rightarrow> int \<Rightarrow> jsstring" where
  "chapterSlice chapter fullText start =
     substring fullText start
       (case endStringIndex chapter of Some e \<Rightarrow> e | None \<Rightarrow> int (length fullText))"

text \<open>The placeholder \<open><p>...</p>\<close> with the six characters of ``loading content'' and
  three full stops.\<close>

definition loadingPlaceholder :: jsstring where
  "loadingPlaceholder =
     ascii ''<p>'' @ [27491, 22312, 21152, 36733, 20869, 23481] @ ascii ''...</p>''"

text \<open>The body of \<open>activeChapterData\<close> for the chapter at the current index. The result
  is a new object (\<open>{...chapter, content: ...}\<close>); neither the chapter nor the full text
  is assigned to.\<close>

definition materialize :: "Chapter \<Rightarrow> jsstring option \<Rightarrow> Chapter" where
  "materialize chapter fullText =
     (if truthy (content chapter) then chapter
      else (case (fullText, startStringIndex chapter) of
              (Some ft, Some start) \<Rightarrow>
                if ft \<noteq> [] then
                  chapter\<lparr>content :=
                    Some (renderParagraphs
                            (dedupTitle (title chapter) (chapterSlice chapter ft start)))\<rparr>
                else chapter\<lparr>content := Some loadingPlaceholder\<rparr>
            | _ \<Rightarrow> chapter\<lparr>content := Some loadingPlaceholder\<rparr>))"

text \<open>\<open>activeChapterData\<close>: \<open>null\<close> without a book; reading \<open>content\<close> of a chapter
  outside the list is a \<open>TypeError\<close>.\<close>

definition activeChapterData ::
  "Chapter list option \<Rightarrow> nat \<Rightarrow> jsstring option \<Rightarrow> jserror + Chapter option" where
  "activeChapterData book currentChapterIndex fullText =
     (case book of
        None \<Rightarrow> Inr None
      | Some chapters \<Rightarrow>
          if currentChapterIndex < length chapters
          then Inr (Some (materialize (chapters ! currentChapterIndex) fullText))
          else Inl TypeError)"

text \<open>A chapter that is materialized lazily: no usable content, a loaded full text, and
  a start offset.\<close>

definition lazyChapter :: "Chapter \<Rightarrow> jsstring option \<Rightarrow> bool" where
  "lazyChapter chapter fullText =
     (\<not> truthy (content chapter) \<and> truthy fullText \<and> startStringIndex chapter \<noteq> None)"

definition sliceOf :: "Chapter \<Rightarrow> jsstring option \<Rightarrow> jsstring" where
  "sliceOf chapter fullText =
     (case (fullText, startStringIndex chapter) of
        (Some ft, Some start) \<Rightarrow> chapterSlice chapter ft start
      | _ \<Rightarrow> [])"

lemmas material_eval = materialize_def truthy_def chapterSlice_def substring_def dedupTitle_def
  renderParagraphs_def paragraphUnit_def indexOf_def includesStr_def trim_def ascii_def
  isWhiteSpace_def lazyChapter_def sliceOf_def

subsection \<open>Facts about \<open>indexOf\<close>, \<open>substring\<close> and \<open>split\<close>\<close>

lemma indexOfFrom_absent: "c \<notin> set xs \<Longrightarrow> indexOfFrom xs [c] k = -1"
  by (induction xs arbitrary: k) auto

lemma indexOfFrom_first:
  "c \<notin> set l \<Longrightarrow> indexOfFrom (l @ c # rest) [c] k = int (k + length l)"
  by (induction l arbitrary: k) auto

lemma indexOf_line_break: "10 \<notin> set l \<Longrightarrow> indexOf (l @ 10 # rest) [10] = int (length l)"
  by (simp add: indexOf_def indexOfFrom_first)

lemma indexOf_no_line_break: "10 \<notin> set raw \<Longrightarrow> indexOf raw [10] = -1"
  by (simp add: indexOf_def indexOfFrom_absent)

lemma includesStr_empty: "includesStr s []"
  by (cases s) (simp_all add: includesStr_def indexOf_def)

lemma substring_first_line: "substring (l @ 10 # rest) 0 (int (length l)) = l"
  by (simp add: substring_def Let_def)

lemma substring_after_line:
  "substring (l @ 10 # rest) (int (length l) + 1) (int (length (l @ 10 # rest))) = rest"
  by (simp add: substring_def Let_def nat_add_distrib)

lemma dedupTitle_strip:
  assumes "10 \<notin> set l"
    and "includesStr (trim l) (trim t) \<or> includesStr (trim t) (trim l)"
  shows "dedupTitle t (l @ 10 # rest) = rest"
proof -
  have "indexOf (l @ 10 # rest) [10] = int (length l)"
    by (rule indexOf_line_break [OF assms(1)])
  with assms(2) substring_first_line [of l rest] substring_after_line [of l rest]
  show ?thesis by (simp add: dedupTitle_def Let_def)
qed

lemma dedupTitle_keep:
  assumes "10 \<notin> set l"
    and "\<not> (includesStr (trim l) (trim t) \<or> includesStr (trim t) (trim l))"
  shows "dedupTitle t (l @ 10 # rest) = l @ 10 # rest"
proof -
  have "indexOf (l @ 10 # rest) [10] = int (length l)"
    by (rule indexOf_line_break [OF assms(1)])
  with assms(2) substring_first_line [of l rest]
  show ?thesis by (simp add: dedupTitle_def Let_def)
qed

lemma dedupTitle_no_line_break: "10 \<notin> set raw \<Longrightarrow> dedupTitle t raw = raw"
  by (simp add: dedupTitle_def indexOf_no_line_break)

lemma splitLines_nonempty: "splitLines s \<noteq> []"
  by (cases s) simp_all

lemma splitLines_length: "length (splitLines s) = Suc (count_list s 10)"
proof (induction s)
  case Nil
  show ?case by simp
next
  case (Cons c cs)
  with splitLines_nonempty [of cs] show ?case
    by (cases "splitLines cs") simp_all
qed

lemma splitLines_no_break: "l \<in> set (splitLines s) \<Longrightarrow> 10 \<notin> set l"
proof (induction s arbitrary: l)
  case Nil
  then show ?case by simp
next
  case (Cons c cs)
  obtain x xs where sp: "splitLines cs = x # xs"
    using splitLines_nonempty [of cs] by (cases "splitLines cs") auto
  show ?case
  proof (cases "c = 10")
    case True
    with Cons show ?thesis by auto
  next
    case False
    with Cons.prems sp have "l = c # x \<or> l \<in> set xs" by simp
    then show ?thesis
    proof
      assume "l = c # x"
      moreover from Cons.IH [of x] sp have "10 \<notin> set x" by simp
      ultimately show ?thesis using False by simp
    next
      assume "l \<in> set xs"
      with Cons.IH [of l] sp show ?thesis by simp
    qed
  qed
qed

text \<open>Joining the lines with line feeds, the inverse of \<open>split\<close>.\<close>

fun joinLines :: "jsstring list \<Rightarrow> jsstring" where
  "joinLines [] = []"
| "joinLines [l] = l"
| "joinLines (l # m # ls) = l @ 10 # joinLines (m # ls)"

lemma joinLines_splitLines: "joinLines (splitLines s) = s"
proof (induction s)
  case Nil
  show ?case by simp
next
  case (Cons c cs)
  obtain x xs where sp: "splitLines cs = x # xs"
    using splitLines_nonempty [of cs] by (cases "splitLines cs") auto
  with Cons show ?case by (cases xs) auto
qed


section \<open>The claims about materialization\<close>

text \<open>Two headings, the second one being the last line of the text, without a line break
  after it.\<close>

definition headingLast :: jsstring where
  "headingLast = ascii ''Chapter 1'' @ [10] @ ascii ''foo'' @ [10] @ ascii ''Chapter 2''"

definition headingLastFirst :: Chapter where
  "headingLastFirst =
     \<lparr>idC = ascii ''chap-0'', title = ascii ''Chapter 1'', index = 0, content = None,
      startStringIndex = Some 0, endStringIndex = Some 14\<rparr>"

definition headingLastSecond :: Chapter where
  "headingLastSecond =
     \<lparr>idC = ascii ''chap-1'', title = ascii ''Chapter 2'', index = 1, content = None,
      startStringIndex = Some 14, endStringIndex = Some 23\<rparr>"

lemma headingLast_parse:
  "parseTxtContentOptimized headingLast = [headingLastFirst, headingLastSecond]"
  by (simp add: headingLast_def headingLastFirst_def headingLastSecond_def
      rx_eval point_eval build_eval)

text \<open>A text of three spaces, and a text that starts with a blank line.\<close>

definition blankText :: jsstring where
  "blankText = [32, 32, 32]"

definition blankFirstLine :: jsstring where
  "blankFirstLine = [32, 10] @ ascii ''abc''"

definition wholeText :: "int \<Rightarrow> Chapter" where
  "wholeText n =
     \<lparr>idC = ascii ''chap-0'', title = titleFullText, index = 0, content = None,
      startStringIndex = Some 0, endStringIndex = Some n\<rparr>"

lemma blankText_parse: "parseTxtContentOptimized blankText = [wholeText 3]"
  by (simp add: blankText_def wholeText_def rx_eval point_eval build_eval)

lemma blankFirstLine_parse: "parseTxtContentOptimized blankFirstLine = [wholeText 5]"
  by (simp add: blankFirstLine_def wholeText_def rx_eval point_eval build_eval)

text \<open>A chapter with an empty line between two lines of prose.\<close>

definition emptyLineText :: jsstring where
  "emptyLineText = ascii ''Part 1'' @ [10] @ ascii ''a'' @ [10, 10] @ ascii ''b''"

definition emptyLineChapter :: Chapter where
  "emptyLineChapter =
     \<lparr>idC = ascii ''chap-0'', title = ascii ''Part 1'', index = 0, content = None,
      startStringIndex = Some 0, endStringIndex = Some 11\<rparr>"

lemma emptyLineText_parse: "parseTxtContentOptimized emptyLineText = [emptyLineChapter]"
  by (simp add: emptyLineText_def emptyLineChapter_def rx_eval point_eval build_eval)

text \<open>
  C6 (as stated, refuted). The last chapter of \<open>headingLast\<close> is the heading line alone.
  Its slice begins with a line that equals the title, and materialization strips nothing:
  the heading is displayed as the only paragraph.
\<close>

theorem C6_heading_only_counterexample:
  "parseTxtContentOptimized headingLast ! 1 = headingLastSecond
   \<and> sliceOf headingLastSecond (Some headingLast) = title headingLastSecond
   \<and> materialize headingLastSecond (Some headingLast) =
       headingLastSecond\<lparr>content := Some (ascii ''<p>Chapter 2</p>'')\<rparr>"
  by (simp add: headingLast_parse)
     (simp add: headingLast_def headingLastSecond_def material_eval)

text \<open>
  C6 (amended). For every lazily materialized chapter whose slice contains a line break
  and whose first line (the text before the first line break), once trimmed, is a
  substring of the trimmed title or contains it, materialization strips exactly that line
  and its line break and renders the rest; a slice without a line break is rendered
  whole. The result is the chapter with only its content replaced, a function of the
  chapter and the full text alone.
\<close>

theorem C6_dedup_amended:
  assumes "lazyChapter chapter fullText"
  shows "(\<forall>l rest.
            sliceOf chapter fullText = l @ 10 # rest \<and> 10 \<notin> set l
            \<and> (includesStr (trim l) (trim (title chapter))
                \<or> includesStr (trim (title chapter)) (trim l))
            \<longrightarrow> materialize chapter fullText = chapter\<lparr>content := Some (renderParagraphs rest)\<rparr>)
       \<and> (10 \<notin> set (sliceOf chapter fullText)
            \<longrightarrow> materialize chapter fullText =
                  chapter\<lparr>content := Some (renderParagraphs (sliceOf chapter fullText))\<rparr>)"
proof -
  from assms obtain ft start where ft: "fullText = Some ft" "ft \<noteq> []"
    and start: "startStringIndex chapter = Some start"
    by (auto simp: lazyChapter_def truthy_def split: option.splits)
  from assms have falsy: "\<not> truthy (content chapter)" by (simp add: lazyChapter_def)
  have mat: "materialize chapter fullText =
      chapter\<lparr>content := Some (renderParagraphs (dedupTitle (title chapter) (sliceOf chapter fullText)))\<rparr>"
    by (simp add: materialize_def falsy ft start sliceOf_def)
  show ?thesis
  proof (intro conjI allI impI)
    fix l rest
    assume h: "sliceOf chapter fullText = l @ 10 # rest \<and> 10 \<notin> set l
        \<and> (includesStr (trim l) (trim (title chapter))
            \<or> includesStr (trim (title chapter)) (trim l))"
    then have "dedupTitle (title chapter) (sliceOf chapter fullText) = rest"
      by (simp add: dedupTitle_strip)
    with mat show "materialize chapter fullText = chapter\<lparr>content := Some (renderParagraphs rest)\<rparr>"
      by simp
  next
    assume "10 \<notin> set (sliceOf chapter fullText)"
    then have "dedupTitle (title chapter) (sliceOf chapter fullText) = sliceOf chapter fullText"
      by (rule dedupTitle_no_line_break)
    with mat show "materialize chapter fullText =
        chapter\<lparr>content := Some (renderParagraphs (sliceOf chapter fullText))\<rparr>"
      by simp
  qed
qed

theorem C6_dedup_amended_witness:
  "lazyChapter headingLastFirst (Some headingLast)
   \<and> sliceOf headingLastFirst (Some headingLast) = ascii ''Chapter 1'' @ 10 # (ascii ''foo'' @ [10])
   \<and> materialize headingLastFirst (Some headingLast) =
       headingLastFirst\<lparr>content := Some (renderParagraphs (ascii ''foo'' @ [10]))\<rparr>"
proof -
  have lazy: "lazyChapter headingLastFirst (Some headingLast)"
    by (simp add: headingLast_def headingLastFirst_def material_eval)
  have slice: "sliceOf headingLastFirst (Some headingLast)
      = ascii ''Chapter 1'' @ 10 # (ascii ''foo'' @ [10])"
    by (simp add: headingLast_def headingLastFirst_def material_eval)
  have nobreak: "10 \<notin> set (ascii ''Chapter 1'')"
    by (simp add: ascii_def)
  have incl: "includesStr (trim (ascii ''Chapter 1'')) (trim (title headingLastFirst))"
    by (simp add: headingLastFirst_def material_eval)
  from C6_dedup_amended [OF lazy] slice nobreak incl
  have "materialize headingLastFirst (Some headingLast) =
      headingLastFirst\<lparr>content := Some (renderParagraphs (ascii ''foo'' @ [10]))\<rparr>"
    by blast
  with lazy slice show ?thesis by blast
qed

text \<open>The text that remains of a chapter's slice after the de-duplication.\<close>

definition remainingText :: "Chapter \<Rightarrow> jsstring option \<Rightarrow> jsstring" where
  "remainingText chapter fullText = dedupTitle (title chapter) (sliceOf chapter fullText)"

lemma paragraphUnit_units: "paragraphUnit line = [60, 112, 62] @ line @ [60, 47, 112, 62]"
  by (simp add: paragraphUnit_def ascii_def)

lemma splitLines_total: "sum_list (map length (splitLines s)) + count_list s 10 = length s"
proof (induction s)
  case Nil
  show ?case by simp
next
  case (Cons c cs)
  obtain x xs where sp: "splitLines cs = x # xs"
    using splitLines_nonempty [of cs] by (cases "splitLines cs") auto
  with Cons show ?case by simp
qed

lemma units_length:
  "length (concat (map paragraphUnit ls)) = sum_list (map length ls) + 7 * length ls"
  by (induction ls) (simp_all add: paragraphUnit_units)

text \<open>
  C8. For every lazily materialized chapter the content is the concatenation, in order,
  of one paragraph unit \<open><p>line</p>\<close> per line of the text that remains after the
  de-duplication, the lines being what lies between the line feeds: their number is the
  number of line feeds plus one, none of them contains a line feed, and joined by line
  feeds they give the remaining text back. An empty line becomes the unit \<open><p></p>\<close>, of
  seven code units, and nothing is collapsed: the content has seven code units for each
  line in addition to the characters of the lines.
\<close>

theorem C8_one_paragraph_per_line:
  assumes "lazyChapter chapter fullText"
  shows "content (materialize chapter fullText) =
           Some (concat (map (\<lambda>line. [60, 112, 62] @ line @ [60, 47, 112, 62])
                   (splitLines (remainingText chapter fullText))))
       \<and> length (map paragraphUnit (splitLines (remainingText chapter fullText)))
           = Suc (count_list (remainingText chapter fullText) 10)
       \<and> (\<forall>k < length (splitLines (remainingText chapter fullText)).
             map paragraphUnit (splitLines (remainingText chapter fullText)) ! k
               = [60, 112, 62] @ splitLines (remainingText chapter fullText) ! k
                  @ [60, 47, 112, 62]
             \<and> (splitLines (remainingText chapter fullText) ! k = [] \<longrightarrow>
                  map paragraphUnit (splitLines (remainingText chapter fullText)) ! k
                    = [60, 112, 62, 60, 47, 112, 62]))
       \<and> joinLines (splitLines (remainingText chapter fullText)) = remainingText chapter fullText
       \<and> (\<forall>l \<in> set (splitLines (remainingText chapter fullText)). 10 \<notin> set l)
       \<and> length (the (content (materialize chapter fullText)))
             + count_list (remainingText chapter fullText) 10
           = length (remainingText chapter fullText)
             + 7 * Suc (count_list (remainingText chapter fullText) 10)"
proof -
  let ?rem = "remainingText chapter fullText"
  from assms obtain ft start where ft: "fullText = Some ft" "ft \<noteq> []"
    and start: "startStringIndex chapter = Some start"
    by (auto simp: lazyChapter_def truthy_def split: option.splits)
  from assms have falsy: "\<not> truthy (content chapter)" by (simp add: lazyChapter_def)
  have c: "content (materialize chapter fullText) =
      Some (concat (map paragraphUnit (splitLines ?rem)))"
    by (simp add: materialize_def falsy ft start sliceOf_def remainingText_def
        renderParagraphs_def)
  have units: "paragraphUnit = (\<lambda>line. [60, 112, 62] @ line @ [60, 47, 112, 62])"
    by (rule ext) (rule paragraphUnit_units)
  have 1: "content (materialize chapter fullText) =
      Some (concat (map (\<lambda>line. [60, 112, 62] @ line @ [60, 47, 112, 62]) (splitLines ?rem)))"
    using c by (simp only: units)
  have 2: "length (map paragraphUnit (splitLines ?rem)) = Suc (count_list ?rem 10)"
    by (simp add: splitLines_length)
  have 3: "\<forall>k < length (splitLines ?rem).
      map paragraphUnit (splitLines ?rem) ! k = [60, 112, 62] @ splitLines ?rem ! k @ [60, 47, 112, 62]
      \<and> (splitLines ?rem ! k = [] \<longrightarrow>
           map paragraphUnit (splitLines ?rem) ! k = [60, 112, 62, 60, 47, 112, 62])"
    by (simp add: paragraphUnit_units)
  have 4: "joinLines (splitLines ?rem) = ?rem"
    by (rule joinLines_splitLines)
  have 5: "\<forall>l \<in> set (splitLines ?rem). 10 \<notin> set l"
    using splitLines_no_break by blast
  have "length (the (content (materialize chapter fullText)))
      = sum_list (map length (splitLines ?rem)) + 7 * length (splitLines ?rem)"
    by (simp add: c units_length)
  with splitLines_total [of ?rem]
  have 6: "length (the (content (materialize chapter fullText))) + count_list ?rem 10
      = length ?rem + 7 * Suc (count_list ?rem 10)"
    by (simp add: splitLines_length)
  from 1 2 3 4 5 6 show ?thesis by blast
qed

theorem C8_one_paragraph_per_line_witness:
  "lazyChapter emptyLineChapter (Some emptyLineText)
   \<and> remainingText emptyLineChapter (Some emptyLineText) = [97, 10, 10, 98]
   \<and> splitLines [97, 10, 10, 98] = [[97], [], [98]]
   \<and> content (materialize emptyLineChapter (Some emptyLineText)) =
       Some [60, 112, 62, 97, 60, 47, 112, 62,
             60, 112, 62, 60, 47, 112, 62,
             60, 112, 62, 98, 60, 47, 112, 62]
   \<and> length (map paragraphUnit (splitLines (remainingText emptyLineChapter (Some emptyLineText))))
       = 3"
proof -
  have lazy: "lazyChapter emptyLineChapter (Some emptyLineText)"
    by (simp add: emptyLineText_def emptyLineChapter_def material_eval)
  have rem: "remainingText emptyLineChapter (Some emptyLineText) = [97, 10, 10, 98]"
    by (simp add: remainingText_def emptyLineText_def emptyLineChapter_def material_eval)
  have lines: "splitLines [97, 10, 10, 98] = [[97], [], [98]]"
    by simp
  have count: "count_list [97, 10, 10, 98] (10::nat) = 2"
    by simp
  from C8_one_paragraph_per_line [OF lazy]
  have "content (materialize emptyLineChapter (Some emptyLineText)) =
      Some (concat (map (\<lambda>line. [60, 112, 62] @ line @ [60, 47, 112, 62])
              (splitLines (remainingText emptyLineChapter (Some emptyLineText)))))"
    and "length (map paragraphUnit (splitLines (remainingText emptyLineChapter (Some emptyLineText))))
      = Suc (count_list (remainingText emptyLineChapter (Some emptyLineText)) 10)"
    by blast+
  with lazy rem lines count show ?thesis by simp
qed

text \<open>
  C10 (as stated, refuted). The only chapter of \<open>blankText\<close> has a slice of three spaces:
  its first line trims to the empty string, and nothing is dropped.
\<close>

theorem C10_blank_slice_counterexample:
  "parseTxtContentOptimized blankText = [wholeText 3]
   \<and> trim (sliceOf (wholeText 3) (Some blankText)) = []
   \<and> materialize (wholeText 3) (Some blankText) =
       (wholeText 3)\<lparr>content := Some (ascii ''<p>   </p>'')\<rparr>"
  by (simp add: blankText_parse) (simp add: blankText_def wholeText_def material_eval)

text \<open>
  C10 (amended). For every lazily materialized chapter whose slice contains a line break
  and whose first line (the text before the first line break) trims to the empty string,
  the de-duplication drops that line and its line break whatever the title is.
\<close>

theorem C10_blank_first_line_amended:
  assumes "lazyChapter chapter fullText"
    and "sliceOf chapter fullText = l @ 10 # rest"
    and "10 \<notin> set l"
    and "trim l = []"
  shows "dedupTitle (title chapter) (sliceOf chapter fullText) = rest
       \<and> materialize chapter fullText = chapter\<lparr>content := Some (renderParagraphs rest)\<rparr>"
proof -
  from assms(1) obtain ft start where ft: "fullText = Some ft" "ft \<noteq> []"
    and start: "startStringIndex chapter = Some start"
    by (auto simp: lazyChapter_def truthy_def split: option.splits)
  from assms(1) have falsy: "\<not> truthy (content chapter)" by (simp add: lazyChapter_def)
  have "includesStr (trim (title chapter)) (trim l)"
    by (simp add: assms(4) includesStr_empty)
  with assms(2,3) have d: "dedupTitle (title chapter) (sliceOf chapter fullText) = rest"
    by (simp add: dedupTitle_strip)
  have "materialize chapter fullText =
      chapter\<lparr>content := Some (renderParagraphs (dedupTitle (title chapter) (sliceOf chapter fullText)))\<rparr>"
    by (simp add: materialize_def falsy ft start sliceOf_def)
  with d show ?thesis by simp
qed

theorem C10_blank_first_line_amended_witness:
  "lazyChapter (wholeText 5) (Some blankFirstLine)
   \<and> sliceOf (wholeText 5) (Some blankFirstLine) = [32] @ 10 # ascii ''abc''
   \<and> trim [32] = []
   \<and> materialize (wholeText 5) (Some blankFirstLine) =
       (wholeText 5)\<lparr>content := Some (renderParagraphs (ascii ''abc''))\<rparr>"
proof -
  have lazy: "lazyChapter (wholeText 5) (Some blankFirstLine)"
    by (simp add: blankFirstLine_def wholeText_def material_eval titleFullText_def)
  have slice: "sliceOf (wholeText 5) (Some blankFirstLine) = [32] @ 10 # ascii ''abc''"
    by (simp add: blankFirstLine_def wholeText_def material_eval)
  have nobreak: "10 \<notin> set [32::nat]" by simp
  have blank: "trim [32] = []" by (simp add: trim_def isWhiteSpace_def)
  from C10_blank_first_line_amended [OF lazy slice nobreak blank] lazy slice blank
  show ?thesis by simp
qed


section \<open>Encoding detection\<close>

text \<open>What a \<open>FileReader\<close> does with a blob: \<open>onload\<close> with a result that may be
  \<open>null\<close>, or \<open>onerror\<close>.\<close>

datatype readOutcome = ReadOk "nat list option" | ReadFailed

text \<open>
  \<open>detectEncoding\<close>. The classifier \<open>window.jschardet\<close> is an external library: it is a
  parameter, absent (\<open>None\<close>) when the library is not loaded, and otherwise the function
  from the binary string to \<open>detected.encoding\<close>, which may be \<open>null\<close>. The reader is
  given the first 4096 bytes of the file; each byte becomes one code unit of the binary
  string. Every branch resolves the promise with a label.
\<close>

definition utf8 :: jsstring where
  "utf8 = ascii ''utf-8''"

definition detectEncoding ::
  "(jsstring \<Rightarrow> jsstring option) option \<Rightarrow> (nat list \<Rightarrow> readOutcome) \<Rightarrow> nat list \<Rightarrow> jsstring" where
  "detectEncoding jschardet reader file =
     (let chunk = take 4096 file
      in case reader chunk of
           ReadFailed \<Rightarrow> utf8
         | ReadOk result \<Rightarrow>
             (case (result, jschardet) of
                (Some buffer, Some detect) \<Rightarrow>
                  (let binaryString = buffer;
                       detected = detect binaryString
                   in case detected of
                        Some encoding \<Rightarrow> if encoding \<noteq> [] then encoding else utf8
                      | None \<Rightarrow> utf8)
              | _ \<Rightarrow> utf8))"

section \<open>The format dispatcher\<close>

text \<open>A promise: resolved, rejected, or never settled (the rich-text and e-book
  branches install no \<open>onerror\<close> handler on their reader).\<close>

datatype 'a promise = Resolved 'a | Rejected jserror | Pending

record File =
  fileName :: jsstring
  fileBytes :: "nat list"

record ParseResult =
  resultTitle :: jsstring
  resultChapters :: "Chapter list"
  resultFullText :: "jsstring option"

text \<open>What \<open>item.load\<close> resolves to: a document with a body, a string, or anything
  else.\<close>

datatype spineDoc = DocBody jsstring | DocString jsstring | DocOther

record SpineItem =
  itemHref :: jsstring
  itemLoad :: "jserror + spineDoc"

record TocItem =
  tocHref :: jsstring
  tocLabel :: jsstring

text \<open>The book that the e-book library builds: whether \<open>book.ready\<close> resolves, the
  navigation, the spine and the title of the metadata.\<close>

record Book =
  bookReady :: "jserror option"
  bookNavigation :: "jserror + TocItem list"
  bookSpine :: "SpineItem list"
  bookTitle :: "jsstring option"

text \<open>The collaborators: the globals \<open>window.jschardet\<close>, \<open>window.mammoth\<close> and
  \<open>window.ePub\<close> (absent when not loaded), the file reader and the text decoder.\<close>

record Env =
  jschardet :: "(jsstring \<Rightarrow> jsstring option) option"
  reader :: "nat list \<Rightarrow> readOutcome"
  decode :: "jsstring \<Rightarrow> nat list option \<Rightarrow> jserror + jsstring"
  mammoth :: "(nat list option \<Rightarrow> jserror + jsstring) option"
  ePub :: "(nat list option \<Rightarrow> Book) option"

text \<open>\<open>file.name.split('.').pop()?.toLowerCase()\<close>: the part after the last full stop
  (the whole name when there is none), ASCII letters lowered; no other character
  lowers to a letter of the three extensions.\<close>

definition toLowerCase :: "jsstring \<Rightarrow> jsstring" where
  "toLowerCase s = map (\<lambda>c. if 65 \<le> c \<and> c \<le> 90 then c + 32 else c) s"

definition extension :: "jsstring \<Rightarrow> jsstring" where
  "extension name = toLowerCase (rev (takeWhile (\<lambda>c. c \<noteq> 46) (rev name)))"

text \<open>\<open>s.replace(pattern, '')\<close> with a string pattern: the first occurrence is
  removed.\<close>

definition removeFirst :: "jsstring \<Rightarrow> jsstring \<Rightarrow> jsstring" where
  "removeFirst s pattern =
     (let k = indexOf s pattern
      in if k = -1 then s else take (nat k) s @ drop (nat k + length pattern) s)"

text \<open>The loop over the spine with the running \<open>index\<close> (here \<open>i\<close>; \<open>html\<close> and \<open>label\<close> are
  the \<open>content\<close> and \<open>title\<close> of the source). An item that fails to load is
  reported by \<open>console.warn\<close> (its reference is appended to the warnings) and the loop goes
  on with the same index. The default title is U+7B2C, the number, U+7AE0, with spaces.\<close>

fun epubChapters :: "TocItem list \<Rightarrow> SpineItem list \<Rightarrow> nat \<Rightarrow> Chapter list \<times> jsstring list" where
  "epubChapters toc [] i = ([], [])"
| "epubChapters toc (item # items) i =
     (case itemLoad item of
        Inl err \<Rightarrow>
          (let (chapters, warnings) = epubChapters toc items i
           in (chapters, itemHref item # warnings))
      | Inr doc \<Rightarrow>
          (let html = (case doc of DocBody innerHTML \<Rightarrow> innerHTML
                          | DocString s \<Rightarrow> s
                          | DocOther \<Rightarrow> []);
               tocItem = find (\<lambda>t. includesStr (tocHref t) (itemHref item)) toc;
               label = (case tocItem of
                          Some t \<Rightarrow> tocLabel t
                        | None \<Rightarrow> [31532, 32] @ digits (i + 1) @ [32, 31456]);
               (chapters, warnings) = epubChapters toc items (Suc i)
           in (\<lparr>idC = ascii ''chap-'' @ digits i, title = label, index = i,
                content = Some html, startStringIndex = None, endStringIndex = None\<rparr>
               # chapters, warnings)))"

definition parseFile :: "Env \<Rightarrow> File \<Rightarrow> ParseResult promise" where
  "parseFile env file =
     (if extension (fileName file) = ascii ''txt'' then
        (let encoding = detectEncoding (jschardet env) (reader env) (fileBytes file)
         in case reader env (fileBytes file) of
              ReadFailed \<Rightarrow> Rejected ReadError
            | ReadOk buffer \<Rightarrow>
                (case decode env encoding buffer of
                   Inl err \<Rightarrow> Rejected err
                 | Inr text \<Rightarrow>
                     Resolved \<lparr>resultTitle = removeFirst (fileName file) (ascii ''.txt''),
                               resultChapters = parseTxtContentOptimized text,
                               resultFullText = Some text\<rparr>))
      else if extension (fileName file) = ascii ''docx'' then
        (case mammoth env of
           None \<Rightarrow> Rejected MammothNotLoaded
         | Some convertToHtml \<Rightarrow>
             (case reader env (fileBytes file) of
                ReadFailed \<Rightarrow> Pending
              | ReadOk arrayBuffer \<Rightarrow>
                  (case convertToHtml arrayBuffer of
                     Inl err \<Rightarrow> Rejected err
                   | Inr html \<Rightarrow>
                       Resolved \<lparr>resultTitle = removeFirst (fileName file) (ascii ''.docx''),
                                 resultChapters =
                                   [\<lparr>idC = ascii ''chap-0'', title = fileName file, index = 0,
                                     content = Some html, startStringIndex = None,
                                     endStringIndex = None\<rparr>],
                                 resultFullText = None\<rparr>)))
      else if extension (fileName file) = ascii ''epub'' then
        (case ePub env of
           None \<Rightarrow> Rejected EpubNotLoaded
         | Some openBook \<Rightarrow>
             (case reader env (fileBytes file) of
                ReadFailed \<Rightarrow> Pending
              | ReadOk arrayBuffer \<Rightarrow>
                  (let book = openBook arrayBuffer
                   in case bookReady book of
                        Some err \<Rightarrow> Rejected err
                      | None \<Rightarrow>
                          (case bookNavigation book of
                             Inl err \<Rightarrow> Rejected err
                           | Inr toc \<Rightarrow>
                               Resolved
                                 \<lparr>resultTitle =
                                    (if truthy (bookTitle book) then the (bookTitle book)
                                     else fileName file),
                                  resultChapters = fst (epubChapters toc (bookSpine book) 0),
                                  resultFullText = None\<rparr>))))
      else Rejected UnsupportedFormat)"

text \<open>The two materialization strategies of a chapter.\<close>

definition contentBased :: "Chapter \<Rightarrow> bool" where
  "contentBased c = (content c \<noteq> None \<and> startStringIndex c = None \<and> endStringIndex c = None)"

definition offsetBased :: "Chapter \<Rightarrow> bool" where
  "offsetBased c = (content c = None \<and> startStringIndex c \<noteq> None \<and> endStringIndex c \<noteq> None)"

definition loaded :: "SpineItem \<Rightarrow> bool" where
  "loaded item = (case itemLoad item of Inl _ \<Rightarrow> False | Inr _ \<Rightarrow> True)"

definition docContent :: "SpineItem \<Rightarrow> jsstring" where
  "docContent item =
     (case itemLoad item of
        Inr (DocBody innerHTML) \<Rightarrow> innerHTML
      | Inr (DocString s) \<Rightarrow> s
      | _ \<Rightarrow> [])"

subsection \<open>Facts about the chapter lists\<close>

lemma chaptersFrom_offsetBased: "list_all offsetBased (chaptersFrom points c n)"
  by (induction points arbitrary: c) (simp_all add: offsetBased_def)

lemma buildChapters_offsetBased: "list_all offsetBased (buildChapters points text)"
  by (simp add: buildChapters_def chaptersFrom_offsetBased) (simp add: offsetBased_def)

lemma epubChapters_failed:
  "itemLoad item = Inl err \<Longrightarrow>
     epubChapters toc (item # items) i =
       (fst (epubChapters toc items i), itemHref item # snd (epubChapters toc items i))"
  by (simp add: split_beta)

lemma epubChapters_loaded:
  "itemLoad item = Inr doc \<Longrightarrow>
     epubChapters toc (item # items) i =
       (\<lparr>idC = ascii ''chap-'' @ digits i,
         title = (case find (\<lambda>t. includesStr (tocHref t) (itemHref item)) toc of
                    Some t \<Rightarrow> tocLabel t
                  | None \<Rightarrow> [31532, 32] @ digits (i + 1) @ [32, 31456]),
         index = i, content = Some (docContent item),
         startStringIndex = None, endStringIndex = None\<rparr>
        # fst (epubChapters toc items (Suc i)),
        snd (epubChapters toc items (Suc i)))"
  by (cases doc) (simp_all add: split_beta Let_def docContent_def)

lemma epubChapters_contentBased: "list_all contentBased (fst (epubChapters toc items i))"
proof (induction items arbitrary: i)
  case Nil
  show ?case by simp
next
  case (Cons item items)
  show ?case
  proof (cases "itemLoad item")
    case (Inl err)
    with Cons [of i] show ?thesis
      by (simp add: epubChapters_failed del: epubChapters.simps)
  next
    case (Inr doc)
    with Cons [of "Suc i"] show ?thesis
      by (simp add: epubChapters_loaded contentBased_def del: epubChapters.simps)
  qed
qed

lemma epubChapters_contents:
  "map content (fst (epubChapters toc items i)) =
     map (\<lambda>item. Some (docContent item)) (filter loaded items)"
proof (induction items arbitrary: i)
  case Nil
  show ?case by simp
next
  case (Cons item items)
  show ?case
  proof (cases "itemLoad item")
    case (Inl err)
    with Cons [of i] show ?thesis
      by (simp add: epubChapters_failed loaded_def del: epubChapters.simps)
  next
    case (Inr doc)
    with Cons [of "Suc i"] show ?thesis
      by (simp add: epubChapters_loaded loaded_def del: epubChapters.simps)
  qed
qed

lemma epubChapters_indices:
  "map index (fst (epubChapters toc items i)) = [i ..< i + length (filter loaded items)]"
proof (induction items arbitrary: i)
  case Nil
  show ?case by simp
next
  case (Cons item items)
  show ?case
  proof (cases "itemLoad item")
    case (Inl err)
    with Cons [of i] show ?thesis
      by (simp add: epubChapters_failed loaded_def del: epubChapters.simps)
  next
    case (Inr doc)
    then have ok: "loaded item" by (simp add: loaded_def)
    have "[i ..< i + Suc (length (filter loaded items))]
        = i # [Suc i ..< Suc i + length (filter loaded items)]"
      by (simp add: upt_conv_Cons del: upt_Suc)
    with Cons [of "Suc i"] Inr ok show ?thesis
      by (simp add: epubChapters_loaded del: epubChapters.simps upt_Suc)
  qed
qed

lemma epubChapters_warnings:
  "snd (epubChapters toc items i) = map itemHref (filter (\<lambda>item. \<not> loaded item) items)"
proof (induction items arbitrary: i)
  case Nil
  show ?case by simp
next
  case (Cons item items)
  show ?case
  proof (cases "itemLoad item")
    case (Inl err)
    with Cons [of i] show ?thesis
      by (simp add: epubChapters_failed loaded_def del: epubChapters.simps)
  next
    case (Inr doc)
    with Cons [of "Suc i"] show ?thesis
      by (simp add: epubChapters_loaded loaded_def del: epubChapters.simps)
  qed
qed


section \<open>The claims about ingestion\<close>

text \<open>A reader that delivers the bytes, a decoder that takes every byte for one
  character, no classifier, no rich-text converter, and an e-book library that opens
  \<open>book\<close>.\<close>

definition sampleEnv :: "Book \<Rightarrow> Env" where
  "sampleEnv book =
     \<lparr>jschardet = None,
      reader = (\<lambda>bytes. ReadOk (Some bytes)),
      decode = (\<lambda>encoding buffer. Inr (case buffer of Some bytes \<Rightarrow> bytes | None \<Rightarrow> [])),
      mammoth = None,
      ePub = Some (\<lambda>buffer. book)\<rparr>"

text \<open>A book whose only block fails to load, and a book whose first block fails and
  whose second block loads.\<close>

definition failingItem :: SpineItem where
  "failingItem = \<lparr>itemHref = ascii ''ch1.xhtml'', itemLoad = Inl ConverterError\<rparr>"

definition loadingItem :: SpineItem where
  "loadingItem = \<lparr>itemHref = ascii ''ch2.xhtml'', itemLoad = Inr (DocBody (ascii ''<p>x</p>''))\<rparr>"

definition brokenBook :: Book where
  "brokenBook =
     \<lparr>bookReady = None, bookNavigation = Inr [], bookSpine = [failingItem],
      bookTitle = Some (ascii ''Book'')\<rparr>"

definition partialBook :: Book where
  "partialBook =
     \<lparr>bookReady = None, bookNavigation = Inr [], bookSpine = [failingItem, loadingItem],
      bookTitle = Some (ascii ''Book'')\<rparr>"

definition epubFile :: File where
  "epubFile = \<lparr>fileName = ascii ''book.epub'', fileBytes = []\<rparr>"

definition txtFile :: File where
  "txtFile = \<lparr>fileName = ascii ''note.txt'', fileBytes = plainText\<rparr>"

lemmas file_eval = parseFile_def extension_def toLowerCase_def removeFirst_def
  detectEncoding_def utf8_def sampleEnv_def epubFile_def txtFile_def brokenBook_def
  partialBook_def failingItem_def loadingItem_def truthy_def indexOf_def ascii_def

text \<open>
  C5 (as stated, refuted). For the e-book whose only block fails to load, ingestion
  resolves with an empty chapter sequence: no fallback chapter is synthesized.
\<close>

theorem C5_empty_result_counterexample:
  "parseFile (sampleEnv brokenBook) epubFile =
     Resolved \<lparr>resultTitle = ascii ''Book'', resultChapters = [], resultFullText = None\<rparr>"
  by (simp add: file_eval)

text \<open>
  C5 (amended). For every document routed to the e-book path whose book opens and whose
  navigation loads, ingestion resolves with one chapter per block that loads, in spine
  order, with the block's content and the indices 0, 1, ...; every block that fails is
  skipped with a warning and the loop goes on with the remaining blocks. The chapter
  sequence is empty exactly when no block loads: no fallback chapter is synthesized.
\<close>

theorem C5_partial_failure_amended:
  assumes "extension (fileName file) = ascii ''epub''"
    and "ePub env = Some openBook"
    and "reader env (fileBytes file) = ReadOk buffer"
    and "bookReady (openBook buffer) = None"
    and "bookNavigation (openBook buffer) = Inr toc"
  shows "parseFile env file =
           Resolved \<lparr>resultTitle = (if truthy (bookTitle (openBook buffer))
                                     then the (bookTitle (openBook buffer)) else fileName file),
                     resultChapters = fst (epubChapters toc (bookSpine (openBook buffer)) 0),
                     resultFullText = None\<rparr>
       \<and> map content (fst (epubChapters toc (bookSpine (openBook buffer)) 0))
           = map (\<lambda>item. Some (docContent item)) (filter loaded (bookSpine (openBook buffer)))
       \<and> map index (fst (epubChapters toc (bookSpine (openBook buffer)) 0))
           = [0 ..< length (filter loaded (bookSpine (openBook buffer)))]
       \<and> snd (epubChapters toc (bookSpine (openBook buffer)) 0)
           = map itemHref (filter (\<lambda>item. \<not> loaded item) (bookSpine (openBook buffer)))
       \<and> (fst (epubChapters toc (bookSpine (openBook buffer)) 0) = []
            \<longleftrightarrow> (\<forall>item \<in> set (bookSpine (openBook buffer)). \<not> loaded item))"
proof -
  let ?spine = "bookSpine (openBook buffer)"
  have ext: "extension (fileName file) \<noteq> ascii ''txt''" "extension (fileName file) \<noteq> ascii ''docx''"
    by (simp_all add: assms(1) ascii_def)
  have 1: "parseFile env file =
      Resolved \<lparr>resultTitle = (if truthy (bookTitle (openBook buffer))
                                then the (bookTitle (openBook buffer)) else fileName file),
                resultChapters = fst (epubChapters toc ?spine 0),
                resultFullText = None\<rparr>"
    using assms ext by (simp add: parseFile_def Let_def)
  have "length (fst (epubChapters toc ?spine 0)) = length (filter loaded ?spine)"
    using epubChapters_contents [of toc ?spine 0, THEN arg_cong, of length] by simp
  then have "fst (epubChapters toc ?spine 0) = [] \<longleftrightarrow> filter loaded ?spine = []"
    by (metis length_0_conv)
  then have 2: "fst (epubChapters toc ?spine 0) = [] \<longleftrightarrow> (\<forall>item \<in> set ?spine. \<not> loaded item)"
    by (simp add: filter_empty_conv)
  from 1 2 epubChapters_contents [of toc ?spine 0] epubChapters_indices [of toc ?spine 0]
    epubChapters_warnings [of toc ?spine 0]
  show ?thesis by simp
qed

theorem C5_partial_failure_amended_witness:
  "extension (fileName epubFile) = ascii ''epub''
   \<and> parseFile (sampleEnv partialBook) epubFile =
       Resolved \<lparr>resultTitle = ascii ''Book'',
                 resultChapters = fst (epubChapters [] [failingItem, loadingItem] 0),
                 resultFullText = None\<rparr>
   \<and> map index (fst (epubChapters [] [failingItem, loadingItem] 0)) = [0]
   \<and> snd (epubChapters [] [failingItem, loadingItem] 0) = [ascii ''ch1.xhtml'']"
proof -
  have ext: "extension (fileName epubFile) = ascii ''epub''"
    by (simp add: epubFile_def extension_def toLowerCase_def ascii_def)
  have lib: "ePub (sampleEnv partialBook) = Some (\<lambda>buffer. partialBook)"
    by (simp add: sampleEnv_def)
  have rd: "reader (sampleEnv partialBook) (fileBytes epubFile) = ReadOk (Some [])"
    by (simp add: sampleEnv_def epubFile_def)
  have ready: "bookReady ((\<lambda>buffer. partialBook) (Some [])) = None"
    by (simp add: partialBook_def)
  have nav: "bookNavigation ((\<lambda>buffer. partialBook) (Some [])) = Inr []"
    by (simp add: partialBook_def)
  have spine: "bookSpine partialBook = [failingItem, loadingItem]"
    by (simp add: partialBook_def)
  have ttl: "truthy (bookTitle partialBook)" "the (bookTitle partialBook) = ascii ''Book''"
    by (simp_all add: partialBook_def truthy_def ascii_def)
  have ld: "filter loaded [failingItem, loadingItem] = [loadingItem]"
    "filter (\<lambda>item. \<not> loaded item) [failingItem, loadingItem] = [failingItem]"
    by (simp_all add: loaded_def failingItem_def loadingItem_def)
  have href: "itemHref failingItem = ascii ''ch1.xhtml''"
    by (simp add: failingItem_def)
  from C5_partial_failure_amended [OF ext lib rd ready nav] ext
  show ?thesis
    by (simp add: spine ttl ld href del: epubChapters.simps filter.simps)
qed

text \<open>
  C7. Every chapter of a resolved ingestion is materialized in exactly one way: on the
  plain-text path the content is absent and both offsets are present; on the rich-text
  and e-book paths the content is present and both offsets are absent.
\<close>

theorem C7_exclusive_materialization:
  assumes "parseFile env file = Resolved r"
  shows "list_all (\<lambda>c. (content c \<noteq> None) \<noteq> (startStringIndex c \<noteq> None \<and> endStringIndex c \<noteq> None))
           (resultChapters r)
       \<and> (if extension (fileName file) = ascii ''txt''
           then list_all offsetBased (resultChapters r)
           else list_all contentBased (resultChapters r))"
proof -
  have excl: "list_all (\<lambda>c. (content c \<noteq> None) \<noteq> (startStringIndex c \<noteq> None \<and> endStringIndex c \<noteq> None)) cs"
    if "list_all offsetBased cs \<or> list_all contentBased cs" for cs
    using that by (auto simp: list_all_iff offsetBased_def contentBased_def)
  show ?thesis
  proof (cases "extension (fileName file) = ascii ''txt''")
    case True
    with assms obtain t where "resultChapters r = parseTxtContentOptimized t"
      by (auto simp: parseFile_def Let_def split: readOutcome.splits sum.splits)
    then have "list_all offsetBased (resultChapters r)"
      by (simp add: parseTxtContentOptimized_def buildChapters_offsetBased)
    with True excl show ?thesis by simp
  next
    case False
    show ?thesis
    proof (cases "extension (fileName file) = ascii ''docx''")
      case True
      with False assms obtain html where "resultChapters r =
          [\<lparr>idC = ascii ''chap-0'', title = fileName file, index = 0, content = Some html,
            startStringIndex = None, endStringIndex = None\<rparr>]"
        by (auto simp: parseFile_def split: option.splits readOutcome.splits sum.splits)
      then have "list_all contentBased (resultChapters r)"
        by (simp add: contentBased_def)
      with False excl show ?thesis by simp
    next
      case notdocx: False
      with False assms obtain toc spine where "resultChapters r = fst (epubChapters toc spine 0)"
        by (auto simp: parseFile_def Let_def
            split: if_splits option.splits readOutcome.splits sum.splits)
      then have "list_all contentBased (resultChapters r)"
        by (simp add: epubChapters_contentBased)
      with False excl show ?thesis by simp
    qed
  qed
qed

theorem C7_exclusive_materialization_witness:
  "parseFile (sampleEnv brokenBook) txtFile =
     Resolved \<lparr>resultTitle = ascii ''note'', resultChapters = [wholeText 5],
               resultFullText = Some plainText\<rparr>
   \<and> list_all (\<lambda>c. (content c \<noteq> None) \<noteq> (startStringIndex c \<noteq> None \<and> endStringIndex c \<noteq> None))
        [wholeText 5]
   \<and> list_all offsetBased [wholeText 5]"
proof -
  have parse: "parseTxtContentOptimized plainText = [wholeText 5]"
    by (simp add: parseTxtContentOptimized_def plainText_points buildChapters_def wholeText_def)
       (simp add: plainText_def ascii_def)
  have res: "parseFile (sampleEnv brokenBook) txtFile =
      Resolved \<lparr>resultTitle = ascii ''note'', resultChapters = [wholeText 5],
                resultFullText = Some plainText\<rparr>"
    by (simp add: parse parseFile_def extension_def toLowerCase_def removeFirst_def
        detectEncoding_def sampleEnv_def txtFile_def indexOf_def ascii_def)
  have ext: "extension (fileName txtFile) = ascii ''txt''"
    by (simp add: txtFile_def extension_def toLowerCase_def ascii_def)
  from C7_exclusive_materialization [OF res] ext res show ?thesis by simp
qed

text \<open>
  C9. Encoding sniffing always returns a non-empty label. It is the default label
  \<open>utf-8\<close> when the read fails, when the read has no result, when the classifier is not
  loaded, and when the classifier gives no label or an empty one; otherwise it is the
  classifier's label. An empty prefix is read and classified like any other.
\<close>

theorem C9_sniffing_never_fails:
  "detectEncoding classifier fileReader file \<noteq> []
   \<and> (fileReader (take 4096 file) = ReadFailed \<longrightarrow>
        detectEncoding classifier fileReader file = ascii ''utf-8'')
   \<and> (fileReader (take 4096 file) = ReadOk None \<longrightarrow>
        detectEncoding classifier fileReader file = ascii ''utf-8'')
   \<and> (classifier = None \<longrightarrow> detectEncoding classifier fileReader file = ascii ''utf-8'')
   \<and> (\<forall>detect buffer.
         classifier = Some detect \<and> fileReader (take 4096 file) = ReadOk (Some buffer)
         \<and> \<not> truthy (detect buffer)
         \<longrightarrow> detectEncoding classifier fileReader file = ascii ''utf-8'')
   \<and> (\<forall>detect buffer.
         classifier = Some detect \<and> fileReader (take 4096 file) = ReadOk (Some buffer)
         \<and> truthy (detect buffer)
         \<longrightarrow> Some (detectEncoding classifier fileReader file) = detect buffer)"
proof -
  have u: "utf8 \<noteq> []" by (simp add: utf8_def ascii_def)
  have 1: "detectEncoding classifier fileReader file \<noteq> []"
    using u by (simp add: detectEncoding_def split: readOutcome.splits option.splits)
  have 2: "fileReader (take 4096 file) = ReadFailed \<longrightarrow>
      detectEncoding classifier fileReader file = ascii ''utf-8''"
    by (simp add: detectEncoding_def utf8_def)
  have 3: "fileReader (take 4096 file) = ReadOk None \<longrightarrow>
      detectEncoding classifier fileReader file = ascii ''utf-8''"
    by (simp add: detectEncoding_def utf8_def)
  have 4: "classifier = None \<longrightarrow> detectEncoding classifier fileReader file = ascii ''utf-8''"
    by (simp add: detectEncoding_def utf8_def split: readOutcome.splits option.splits)
  have 5: "\<forall>detect buffer.
         classifier = Some detect \<and> fileReader (take 4096 file) = ReadOk (Some buffer)
         \<and> \<not> truthy (detect buffer)
         \<longrightarrow> detectEncoding classifier fileReader file = ascii ''utf-8''"
    by (simp add: detectEncoding_def utf8_def truthy_def split: option.splits)
  have 6: "\<forall>detect buffer.
         classifier = Some detect \<and> fileReader (take 4096 file) = ReadOk (Some buffer)
         \<and> truthy (detect buffer)
         \<longrightarrow> Some (detectEncoding classifier fileReader file) = detect buffer"
    by (simp add: detectEncoding_def truthy_def split: option.splits)
  from 1 2 3 4 5 6 show ?thesis by blast
qed

theorem C9_sniffing_never_fails_witness:
  "detectEncoding (Some (\<lambda>binaryString. None)) (\<lambda>bytes. ReadOk (Some bytes)) [] = ascii ''utf-8''
   \<and> detectEncoding None (\<lambda>bytes. ReadFailed) [1, 2, 3] = ascii ''utf-8''"
proof -
  have a: "\<not> truthy ((\<lambda>binaryString. None) ([] :: jsstring))"
    by (simp add: truthy_def)
  have b: "(\<lambda>bytes. ReadOk (Some bytes)) (take 4096 ([] :: nat list)) = ReadOk (Some [])"
    by simp
  from C9_sniffing_never_fails
         [of "Some (\<lambda>binaryString. None)" "\<lambda>bytes. ReadOk (Some bytes)" "[]"] a b
  have 1: "detectEncoding (Some (\<lambda>binaryString. None)) (\<lambda>bytes. ReadOk (Some bytes)) []
      = ascii ''utf-8''"
    by blast
  from C9_sniffing_never_fails [of None "\<lambda>bytes. ReadFailed" "[1, 2, 3]"]
  have 2: "detectEncoding None (\<lambda>bytes. ReadFailed) [1, 2, 3] = ascii ''utf-8''"
    by blast
  from 1 2 show ?thesis by simp
qed

end
